theory Spec2Isabelle
  imports Main "HOL-Library.AList"
begin

section \<open>The process-task scheduler of TaskProcessManagerMax.ts\<close>

text \<open>
  The class \<^verbatim>\<open>TaskProcessManagerMax\<close> is embedded as a record of its fields and one
  function per method. JavaScript runs the class on one thread: a method body, a timer
  callback or a listener of a child process runs until it reaches an \<^verbatim>\<open>await\<close> on a
  timer or on a process. The model takes every hook to be absent or synchronous, so that
  each of these bodies is one atomic step; the hooks it would call, the processes it
  spawns and the signals it sends are appended to the field \<open>trace\<close> in program order.

  What the class keeps in closures and in the event loop is made explicit in four more
  fields: \<open>procs\<close> (one entry per spawned child with what its listeners captured),
  \<open>loops\<close> (the activations of \<^verbatim>\<open>runSingle\<close> suspended in \<^verbatim>\<open>delay\<close>),
  \<open>retryTimers\<close> (the pending retry time-outs) and \<open>lanes\<close> (the activations of the
  per-group function of \<^verbatim>\<open>runGroups\<close>).
\<close>

subsection \<open>Data\<close>

type_synonym signal = string

record task =
  command :: string
  args :: "string list option"
  options :: "string option"
  meta :: "string option"
  timeout :: "nat option"

datatype status = Waiting | Running | Done | Failed | Timeout | Cancelled | Stopped

datatype level = Debug | Info | Warn | Error

text \<open>An entry of \<^verbatim>\<open>threads\<close>: \<^verbatim>\<open>null\<close>, a task index, or a hole left by a write
  past the end of the array (it reads as \<^verbatim>\<open>undefined\<close>, which is not \<^verbatim>\<open>null\<close>).\<close>

datatype slot = Null | Num nat | Undefined

text \<open>What the scheduler does to the outside: the hooks it calls with their arguments,
  the processes it spawns (numbered in spawn order, the number stands for the pid) and
  the signals it sends.\<close>

datatype effect =
    BeforeStart "task option list"
  | AfterStart
  | BeforeStop
  | AfterStop
  | BeforePause
  | AfterPause
  | BeforeRunTask nat nat task
  | AfterRunTask nat nat nat task "int option" "signal option" string string
  | BeforeStopTask nat "task option"
  | AfterStopTask nat "task option"
  | OnStopTask nat "task option"
  | OnTaskStdout nat nat task string
  | OnTaskStderr nat nat task string
  | OnTasksRunning "nat list" "nat list" "slot list"
  | OnAllTasksDone nat
  | OnDestroy
  | OnTaskError nat nat task "int option" "signal option" string
  | OnLog level string "nat list"
  | OnTaskTimeout nat task
  | OnTaskRetry nat nat
  | OnTaskDone nat task
  | OnGroupDone nat "task list"
  | Spawn nat task
  | Kill nat signal

text \<open>A spawned child with the variables its listeners close over: \<open>p_thread\<close> and
  \<open>p_index\<close> are \<^verbatim>\<open>t\<close> and \<^verbatim>\<open>nextIdx\<close> in \<^verbatim>\<open>runSingle\<close>, \<^verbatim>\<open>gIdx\<close> and
  \<^verbatim>\<open>tIdx\<close> in \<^verbatim>\<open>runSingleTask\<close>; \<open>p_timer\<close> is the delay of the deadline timer
  while it is armed; \<open>p_lane\<close> is the lane that awaits the child in grouped mode.\<close>

record proc =
  p_thread :: nat
  p_index :: nat
  p_task :: task
  p_stdout :: string
  p_stderr :: string
  p_closed :: bool
  p_timer :: "nat option"
  p_lane :: "nat option"

text \<open>One activation of the per-group function of \<^verbatim>\<open>runGroups\<close>: the call of
  \<^verbatim>\<open>runGroups\<close> it belongs to, its group and group index, the position of the task
  it runs, and whether it has resolved.\<close>

record lane =
  l_run :: nat
  l_gidx :: nat
  l_group :: "task list"
  l_pos :: nat
  l_done :: bool

record manager =
  totalThreads :: nat
  sleep :: nat
  tasks :: "task option list"
  taskGroups :: "task list list"
  threads :: "slot list"
  processing :: "nat list"
  processed :: "nat list"
  isProcessing :: bool
  isPaused :: bool
  children :: "(nat \<times> nat) list"
  retryCount :: "nat \<rightharpoonup> nat"
  timeouts :: "(nat \<times> nat) list"
  maxRetry :: nat
  defaultTimeout :: nat
  retryDelay :: nat
  globalRetryLimit :: nat
  globalRetryCount :: nat
  taskStatus :: "nat \<rightharpoonup> status"
  logLevel :: level
  killSignal :: signal
  procs :: "proc list"
  loops :: nat
  retryTimers :: nat
  lanes :: "lane list"
  runs :: nat
  trace :: "effect list"

datatype error = AlreadyRunning

subsection \<open>Helpers\<close>

definition emit :: "effect list \<Rightarrow> manager \<Rightarrow> manager" where
  "emit es s = s\<lparr>trace := trace s @ es\<rparr>"

fun levels :: "level \<Rightarrow> nat" where
  "levels Debug = 0"
| "levels Info = 1"
| "levels Warn = 2"
| "levels Error = 3"

text \<open>\<^verbatim>\<open>log\<close>: the message reaches the log hook when its level is at least
  \<^verbatim>\<open>logLevel\<close>. The numbers of the data object are kept, the rest of it is dropped.\<close>

definition log :: "level \<Rightarrow> string \<Rightarrow> nat list \<Rightarrow> manager \<Rightarrow> manager" where
  "log lv msg dat s = (if levels (logLevel s) \<le> levels lv then emit [OnLog lv msg dat] s else s)"

text \<open>An array write \<^verbatim>\<open>xs[i] = v\<close>: past the end JavaScript extends the array and
  leaves holes, which read as \<open>hole\<close>.\<close>

definition js_set :: "'a list \<Rightarrow> nat \<Rightarrow> 'a \<Rightarrow> 'a \<Rightarrow> 'a list" where
  "js_set xs i v hole =
     (if i < length xs then xs[i := v] else xs @ replicate (i - length xs) hole @ [v])"

definition upd_proc :: "nat \<Rightarrow> (proc \<Rightarrow> proc) \<Rightarrow> proc list \<Rightarrow> proc list" where
  "upd_proc pid f ps = (if pid < length ps then ps[pid := f (ps ! pid)] else ps)"

text \<open>\<^verbatim>\<open>clearTimeout\<close> on the timer of child \<open>pid\<close>, and on every timer of a table.\<close>

definition clearTimeout :: "nat \<Rightarrow> proc list \<Rightarrow> proc list" where
  "clearTimeout pid ps = upd_proc pid (\<lambda>p. p\<lparr>p_timer := None\<rparr>) ps"

definition clearTimeouts :: "(nat \<times> nat) list \<Rightarrow> proc list \<Rightarrow> proc list" where
  "clearTimeouts tab ps = fold clearTimeout (map snd tab) ps"

subsection \<open>Construction and installation of tasks\<close>

definition constructor :: "nat \<Rightarrow> nat \<Rightarrow> nat \<Rightarrow> nat \<Rightarrow> signal \<Rightarrow> manager" where
  "constructor th sl mr tmo sig =
     \<lparr> totalThreads = th, sleep = sl, tasks = [], taskGroups = [],
       threads = replicate th Null, processing = [], processed = [],
       isProcessing = False, isPaused = False, children = [], retryCount = Map.empty,
       timeouts = [], maxRetry = mr, defaultTimeout = tmo, retryDelay = 1000,
       globalRetryLimit = 100, globalRetryCount = 0, taskStatus = Map.empty,
       logLevel = Info, killSignal = sig, procs = [], loops = 0, retryTimers = 0,
       lanes = [], runs = 0, trace = [] \<rparr>"

definition resetState :: "manager \<Rightarrow> manager" where
  "resetState s =
     s\<lparr> processed := [], processing := [], threads := replicate (totalThreads s) Null,
        children := [], retryCount := Map.empty,
        procs := clearTimeouts (timeouts s) (procs s), timeouts := [],
        taskStatus := Map.empty \<rparr>"

definition setTasks :: "task list \<Rightarrow> manager \<Rightarrow> manager" where
  "setTasks ts s =
     (let s1 = resetState (s\<lparr>tasks := map Some ts, taskGroups := []\<rparr>)
      in s1\<lparr>taskStatus := fold (\<lambda>i m. m(i \<mapsto> Waiting)) [0..<length ts] (taskStatus s1)\<rparr>)"

definition setGroupedTasks :: "task list list \<Rightarrow> manager \<Rightarrow> manager" where
  "setGroupedTasks groups s = resetState (s\<lparr>taskGroups := groups, tasks := []\<rparr>)"

subsection \<open>Flat mode: the body of \<^verbatim>\<open>runSingle\<close>\<close>

text \<open>The predicate of \<^verbatim>\<open>findIndex\<close> (a null or missing task is falsy) and the
  search itself; \<open>None\<close> stands for \<^verbatim>\<open>-1\<close>.\<close>

definition eligible :: "manager \<Rightarrow> nat \<Rightarrow> bool" where
  "eligible s i \<longleftrightarrow>
     tasks s ! i \<noteq> None \<and> i \<notin> set (processing s) \<and> i \<notin> set (processed s)
     \<and> taskStatus s i \<noteq> Some Cancelled"

definition findIndex :: "manager \<Rightarrow> nat option" where
  "findIndex s = List.find (eligible s) [0..<length (tasks s)]"

text \<open>One round of the \<^verbatim>\<open>for\<close> loop over the slots (lines 177 to 244): the slot is
  skipped unless it holds \<^verbatim>\<open>null\<close>; otherwise the task found is assigned, marked
  running, announced, spawned, and its timer and listeners are set up.\<close>

definition dispatch :: "nat \<Rightarrow> manager \<Rightarrow> manager" where
  "dispatch t s =
     (if \<not> (t < length (threads s) \<and> threads s ! t = Null) then s
      else case findIndex s of
        None \<Rightarrow> s
      | Some nextIdx \<Rightarrow>
          (case tasks s ! nextIdx of
             None \<Rightarrow> s
           | Some task \<Rightarrow>
               let pid = length (procs s);
                   timeoutMs = (case timeout task of Some ms \<Rightarrow> ms | None \<Rightarrow> defaultTimeout s);
                   s1 = s\<lparr> threads := (threads s)[t := Num nextIdx],
                           processing := processing s @ [nextIdx],
                           taskStatus := (taskStatus s)(nextIdx \<mapsto> Running) \<rparr>;
                   s2 = log Info ''Start task'' [nextIdx] (emit [BeforeRunTask t nextIdx task] s1);
                   s3 = emit [Spawn pid task] s2
               in s3\<lparr> children := AList.update nextIdx pid (children s3),
                       timeouts := AList.update nextIdx pid (timeouts s3),
                       procs := procs s3 @
                         [\<lparr> p_thread = t, p_index = nextIdx, p_task = task, p_stdout = [],
                            p_stderr = [], p_closed = False, p_timer = Some timeoutMs,
                            p_lane = None \<rparr>] \<rparr>))"

text \<open>\<^verbatim>\<open>runSingle\<close> from its loop head to its next suspension: either the loop ends
  (the flag is cleared and the completion hook called), or one iteration runs and the
  activation is suspended in \<^verbatim>\<open>delay\<close>.\<close>

definition runSingle :: "manager \<Rightarrow> manager" where
  "runSingle s =
     (if isProcessing s \<and> length (processed s) < length (tasks s) then
        (if isPaused s then s\<lparr>loops := loops s + 1\<rparr>
         else
           let s1 = emit [OnTasksRunning (processing s) (processed s) (threads s)] s;
               s2 = fold dispatch [0..<totalThreads s1] s1
           in s2\<lparr>loops := loops s2 + 1\<rparr>)
      else emit [OnAllTasksDone (length (tasks s))] (s\<lparr>isProcessing := False\<rparr>))"

text \<open>The deadline timer of child \<open>pid\<close> expires.\<close>

definition timer_fire :: "nat \<Rightarrow> manager \<Rightarrow> manager" where
  "timer_fire pid s =
     (let p = procs s ! pid;
          s1 = s\<lparr> procs := clearTimeout pid (procs s),
                  taskStatus := (taskStatus s)(p_index p \<mapsto> Timeout) \<rparr>;
          s2 = emit [OnTaskTimeout (p_index p) (p_task p)] s1
      in if map_of (children s2) (p_index p) \<noteq> None
         then log Warn ''Task timeout'' [p_index p, the (p_timer p)]
                (emit [Kill pid (killSignal s2)] s2)
         else s2)"

text \<open>The \<^verbatim>\<open>data\<close> listeners of a child (both modes).\<close>

definition on_stdout :: "nat \<Rightarrow> string \<Rightarrow> manager \<Rightarrow> manager" where
  "on_stdout pid dat s =
     (let p = procs s ! pid
      in emit [OnTaskStdout (p_thread p) (p_index p) (p_task p) dat]
           (s\<lparr>procs := upd_proc pid (\<lambda>p. p\<lparr>p_stdout := p_stdout p @ dat\<rparr>) (procs s)\<rparr>))"

definition on_stderr :: "nat \<Rightarrow> string \<Rightarrow> manager \<Rightarrow> manager" where
  "on_stderr pid dat s =
     (let p = procs s ! pid
      in emit [OnTaskStderr (p_thread p) (p_index p) (p_task p) dat]
           (s\<lparr>procs := upd_proc pid (\<lambda>p. p\<lparr>p_stderr := p_stderr p @ dat\<rparr>) (procs s)\<rparr>))"

text \<open>The retry policy (lines 227 to 242), after a close with a code other than 0.\<close>

definition on_failure :: "nat \<Rightarrow> manager \<Rightarrow> manager" where
  "on_failure nextIdx s =
     (let rc = (case retryCount s nextIdx of Some n \<Rightarrow> n | None \<Rightarrow> 0) + 1;
          s1 = s\<lparr> taskStatus := (taskStatus s)(nextIdx \<mapsto> Failed),
                  retryCount := (retryCount s)(nextIdx \<mapsto> rc),
                  globalRetryCount := globalRetryCount s + 1 \<rparr>
      in if rc \<le> maxRetry s1 \<and> globalRetryCount s1 \<le> globalRetryLimit s1 then
           (let s2 = emit [OnTaskRetry nextIdx rc] (log Warn ''Retry task'' [nextIdx, rc] s1)
            in s2\<lparr> processed := filter (\<lambda>idx. idx \<noteq> nextIdx) (processed s2),
                    retryTimers := retryTimers s2 + 1 \<rparr>)
         else if globalRetryLimit s1 < globalRetryCount s1 then
           log Error ''Global retry limit reached, stopping all tasks'' [globalRetryCount s1]
             (s1\<lparr>isProcessing := False\<rparr>)
         else log Error ''Task failed after max retry'' [nextIdx] s1)"

text \<open>The \<^verbatim>\<open>close\<close> listener of a child spawned by \<^verbatim>\<open>runSingle\<close> (lines 212 to 244).\<close>

definition close_flat :: "nat \<Rightarrow> int option \<Rightarrow> signal option \<Rightarrow> manager \<Rightarrow> manager" where
  "close_flat pid code sig s =
     (let p = procs s ! pid; t = p_thread p; nextIdx = p_index p; task = p_task p;
          ps1 = (case map_of (timeouts s) nextIdx of
                   None \<Rightarrow> procs s | Some tm \<Rightarrow> clearTimeout tm (procs s));
          s1 = s\<lparr> procs := upd_proc pid (\<lambda>p. p\<lparr>p_closed := True\<rparr>) ps1,
                  timeouts := AList.delete nextIdx (timeouts s),
                  children := AList.delete nextIdx (children s),
                  processing := filter (\<lambda>idx. idx \<noteq> nextIdx) (processing s),
                  processed := (if nextIdx \<in> set (processed s) then processed s
                                else processed s @ [nextIdx]),
                  threads := js_set (threads s) t Null Undefined \<rparr>;
          s2 = emit ([AfterRunTask pid t nextIdx task code sig (p_stdout p) (p_stderr p),
                      OnStopTask nextIdx (Some task)]
                     @ (if code \<noteq> Some 0
                        then [OnTaskError t nextIdx task code sig (p_stderr p)] else [])) s1
      in if code = Some 0 then
           emit [OnTaskDone nextIdx task]
             (log Info ''Task done'' [nextIdx] (s2\<lparr>taskStatus := (taskStatus s2)(nextIdx \<mapsto> Done)\<rparr>))
         else on_failure nextIdx s2)"

text \<open>The callback of a retry time-out (lines 234 to 236).\<close>

definition retry_fire :: "manager \<Rightarrow> manager" where
  "retry_fire s =
     (let s1 = s\<lparr>retryTimers := retryTimers s - 1\<rparr>
      in if isProcessing s1 then runSingle s1 else s1)"

subsection \<open>Grouped mode: \<^verbatim>\<open>runSingleTask\<close> and \<^verbatim>\<open>runGroups\<close>\<close>

text \<open>\<^verbatim>\<open>runSingleTask\<close> up to the promise it returns: the child is spawned, with no
  entry in \<^verbatim>\<open>children\<close> and no timer.\<close>

definition runSingleTask :: "nat \<Rightarrow> nat \<Rightarrow> nat \<Rightarrow> task \<Rightarrow> manager \<Rightarrow> manager" where
  "runSingleTask l gIdx tIdx task s =
     (let pid = length (procs s);
          s1 = log Info ''Run group task'' [gIdx, tIdx] (emit [Spawn pid task] s)
      in s1\<lparr>procs := procs s1 @
           [\<lparr> p_thread = gIdx, p_index = tIdx, p_task = task, p_stdout = [], p_stderr = [],
              p_closed = False, p_timer = None, p_lane = Some l \<rparr>]\<rparr>)"

text \<open>A lane from the head of its \<^verbatim>\<open>for\<close> loop to its next suspension: the task at
  \<open>l_pos\<close> is started if there is one and the manager is still processing; otherwise
  the loop is left, the group hook called and the lane resolves.\<close>

definition lane_continue :: "nat \<Rightarrow> manager \<Rightarrow> manager" where
  "lane_continue l s =
     (let ln = lanes s ! l
      in if l_pos ln < length (l_group ln) \<and> isProcessing s
         then runSingleTask l (l_gidx ln) (l_pos ln) (l_group ln ! l_pos ln) s
         else emit [OnGroupDone (l_gidx ln) (l_group ln)]
                (s\<lparr>lanes := (lanes s)[l := ln\<lparr>l_done := True\<rparr>]\<rparr>))"

definition lane_start :: "nat \<Rightarrow> nat \<times> task list \<Rightarrow> manager \<Rightarrow> manager" where
  "lane_start r g s =
     lane_continue (length (lanes s))
       (s\<lparr>lanes := lanes s @
           [\<lparr> l_run = r, l_gidx = fst g, l_group = snd g, l_pos = 0, l_done = False \<rparr>]\<rparr>)"

text \<open>The continuation of \<^verbatim>\<open>Promise.all\<close> in \<^verbatim>\<open>runGroups\<close> (lines 293, 294) runs once
  every lane of the call has resolved.\<close>

definition run_resolved :: "nat \<Rightarrow> manager \<Rightarrow> bool" where
  "run_resolved r s = list_all (\<lambda>ln. l_run ln = r \<longrightarrow> l_done ln) (lanes s)"

definition finish_run :: "nat \<Rightarrow> manager \<Rightarrow> manager" where
  "finish_run r s =
     (if run_resolved r s
      then emit [OnAllTasksDone (length (taskGroups s))] (s\<lparr>isProcessing := False\<rparr>)
      else s)"

definition runGroups :: "manager \<Rightarrow> manager" where
  "runGroups s =
     (let r = runs s;
          s1 = fold (lane_start r) (List.enumerate 0 (taskGroups s)) (s\<lparr>runs := r + 1\<rparr>)
      in finish_run r s1)"

text \<open>The \<^verbatim>\<open>close\<close> listener of a child spawned by \<^verbatim>\<open>runSingleTask\<close> (lines 269 to
  278), followed by what \<^verbatim>\<open>resolve()\<close> resumes: the lane, and the end of
  \<^verbatim>\<open>runGroups\<close> when this was its last lane.\<close>

definition close_group :: "nat \<Rightarrow> nat \<Rightarrow> int option \<Rightarrow> signal option \<Rightarrow> manager \<Rightarrow> manager" where
  "close_group l pid code sig s =
     (let p = procs s ! pid; gIdx = p_thread p; tIdx = p_index p; task = p_task p;
          s1 = s\<lparr>procs := upd_proc pid (\<lambda>p. p\<lparr>p_closed := True\<rparr>) (procs s)\<rparr>;
          s2 = (if code = Some 0
                then emit [OnTaskDone tIdx task] (s1\<lparr>taskStatus := (taskStatus s1)(tIdx \<mapsto> Done)\<rparr>)
                else emit [OnTaskError gIdx tIdx task code sig (p_stderr p)]
                       (s1\<lparr>taskStatus := (taskStatus s1)(tIdx \<mapsto> Failed)\<rparr>));
          ln = lanes s2 ! l;
          s3 = lane_continue l (s2\<lparr>lanes := (lanes s2)[l := ln\<lparr>l_pos := l_pos ln + 1\<rparr>]\<rparr>)
      in if l_done (lanes s3 ! l) then finish_run (l_run ln) s3 else s3)"

definition on_close :: "nat \<Rightarrow> int option \<Rightarrow> signal option \<Rightarrow> manager \<Rightarrow> manager" where
  "on_close pid code sig s =
     (case p_lane (procs s ! pid) of
        None \<Rightarrow> close_flat pid code sig s
      | Some l \<Rightarrow> close_group l pid code sig s)"

subsection \<open>The public methods\<close>

text \<open>\<^verbatim>\<open>start\<close> throws when the manager is processing (after the warning is logged).\<close>

definition start :: "manager \<Rightarrow> error \<times> manager + manager" where
  "start s =
     (if isProcessing s
      then Inl (AlreadyRunning, log Warn ''Task manager is already running.'' [] s)
      else
        let s1 = emit [BeforeStart (tasks s)] s;
            s2 = emit [AfterStart]
                   (s1\<lparr> isProcessing := True, isPaused := False,
                         threads := replicate (totalThreads s1) Null \<rparr>)
        in Inr (if 0 < length (taskGroups s2) then runGroups s2 else runSingle s2))"

definition kill_all :: "signal \<Rightarrow> manager \<Rightarrow> manager" where
  "kill_all sig s = emit (map (\<lambda>(idx, pid). Kill pid sig) (children s)) s"

definition stop :: "signal option \<Rightarrow> manager \<Rightarrow> manager" where
  "stop sg s =
     (let sig = (case sg of Some x \<Rightarrow> x | None \<Rightarrow> killSignal s);
          s1 = emit [BeforeStop] s;
          s2 = kill_all sig (s1\<lparr>isProcessing := False, isPaused := False\<rparr>)
      in emit [AfterStop]
           (s2\<lparr> children := [], procs := clearTimeouts (timeouts s2) (procs s2),
                 timeouts := [], processing := [], processed := [],
                 threads := replicate (totalThreads s2) Null \<rparr>))"

definition stopTask :: "nat \<Rightarrow> signal option \<Rightarrow> manager \<Rightarrow> manager" where
  "stopTask index sg s =
     (let sig = (case sg of Some x \<Rightarrow> x | None \<Rightarrow> killSignal s);
          task = (if index < length (tasks s) then tasks s ! index else None);
          s1 = emit [BeforeStopTask index task] s;
          s2 = (case map_of (children s1) index of
                  None \<Rightarrow> s1
                | Some child \<Rightarrow>
                    (emit [Kill child sig] s1)
                      \<lparr> children := AList.delete index (children s1),
                        processing := filter (\<lambda>idx. idx \<noteq> index) (processing s1),
                        threads := map (\<lambda>t. if t = Num index then Null else t) (threads s1),
                        processed := (if index \<in> set (processed s1) then processed s1
                                      else processed s1 @ [index]) \<rparr>);
          s3 = emit [AfterStopTask index task, OnStopTask index task] s2
      in log Info ''Stop task'' [index] (s3\<lparr>taskStatus := (taskStatus s3)(index \<mapsto> Stopped)\<rparr>))"

definition pause :: "manager \<Rightarrow> manager" where
  "pause s = emit [AfterPause] ((emit [BeforePause] s)\<lparr>isPaused := True\<rparr>)"

definition continue :: "manager \<Rightarrow> manager" where
  "continue s =
     (if \<not> isPaused s \<or> isProcessing s then s
      else runSingle (s\<lparr>isPaused := False, isProcessing := True\<rparr>))"

definition cancelTask :: "nat \<Rightarrow> manager \<Rightarrow> manager" where
  "cancelTask index s =
     (if index \<in> set (processing s) then s
      else log Info ''Cancel task'' [index]
             (s\<lparr> tasks := js_set (tasks s) index None None,
                  taskStatus := (taskStatus s)(index \<mapsto> Cancelled) \<rparr>))"

definition destroy :: "signal option \<Rightarrow> manager \<Rightarrow> manager" where
  "destroy sg s =
     (let sig = (case sg of Some x \<Rightarrow> x | None \<Rightarrow> killSignal s);
          s1 = kill_all sig (s\<lparr>isProcessing := False, isPaused := False\<rparr>)
      in emit [OnDestroy]
           (s1\<lparr> children := [], procs := clearTimeouts (timeouts s1) (procs s1),
                 timeouts := [], tasks := [], threads := [], processing := [],
                 processed := [] \<rparr>))"

subsection \<open>Runs\<close>

text \<open>What can happen to a manager between two installations of tasks: a call of a
  public method, or a callback of the event loop. A callback that is not pending (a
  timer that is not armed, a child that has closed, a loop that is not suspended) cannot
  run: such an event leaves the state as it is.\<close>

datatype event =
    Start
  | Stop "signal option"
  | StopTask nat "signal option"
  | Pause
  | Continue
  | CancelTask nat
  | Tick
  | RetryTimer
  | TimerFire nat
  | Stdout nat string
  | Stderr nat string
  | Close nat "int option" "signal option"

definition live :: "manager \<Rightarrow> nat \<Rightarrow> bool" where
  "live s pid \<longleftrightarrow> pid < length (procs s) \<and> \<not> p_closed (procs s ! pid)"

fun step :: "event \<Rightarrow> manager \<Rightarrow> manager" where
  "step Start s = (case start s of Inl (e, s') \<Rightarrow> s' | Inr s' \<Rightarrow> s')"
| "step (Stop sg) s = stop sg s"
| "step (StopTask i sg) s = stopTask i sg s"
| "step Pause s = pause s"
| "step Continue s = continue s"
| "step (CancelTask i) s = cancelTask i s"
| "step Tick s = (if 0 < loops s then runSingle (s\<lparr>loops := loops s - 1\<rparr>) else s)"
| "step RetryTimer s = (if 0 < retryTimers s then retry_fire s else s)"
| "step (TimerFire pid) s =
     (if pid < length (procs s) \<and> p_timer (procs s ! pid) \<noteq> None then timer_fire pid s else s)"
| "step (Stdout pid dat) s = (if live s pid then on_stdout pid dat s else s)"
| "step (Stderr pid dat) s = (if live s pid then on_stderr pid dat s else s)"
| "step (Close pid code sig) s = (if live s pid then on_close pid code sig s else s)"

definition exec :: "event list \<Rightarrow> manager \<Rightarrow> manager" where
  "exec evs s = fold step evs s"

subsection \<open>Example inputs\<close>

definition sh :: "string \<Rightarrow> task" where
  "sh c = \<lparr>command = c, args = None, options = None, meta = None, timeout = None\<rparr>"

section \<open>Properties\<close>

subsection \<open>Fields left alone by the helpers\<close>

lemma emit_fields [simp]:
  "totalThreads (emit es s) = totalThreads s" "sleep (emit es s) = sleep s"
  "tasks (emit es s) = tasks s" "taskGroups (emit es s) = taskGroups s"
  "threads (emit es s) = threads s" "processing (emit es s) = processing s"
  "processed (emit es s) = processed s" "isProcessing (emit es s) = isProcessing s"
  "isPaused (emit es s) = isPaused s" "children (emit es s) = children s"
  "retryCount (emit es s) = retryCount s" "timeouts (emit es s) = timeouts s"
  "maxRetry (emit es s) = maxRetry s" "defaultTimeout (emit es s) = defaultTimeout s"
  "retryDelay (emit es s) = retryDelay s" "globalRetryLimit (emit es s) = globalRetryLimit s"
  "globalRetryCount (emit es s) = globalRetryCount s" "taskStatus (emit es s) = taskStatus s"
  "logLevel (emit es s) = logLevel s" "killSignal (emit es s) = killSignal s"
  "procs (emit es s) = procs s" "loops (emit es s) = loops s"
  "retryTimers (emit es s) = retryTimers s" "lanes (emit es s) = lanes s"
  "runs (emit es s) = runs s" "trace (emit es s) = trace s @ es"
  by (simp_all add: emit_def)

lemma log_fields [simp]:
  "totalThreads (log lv msg dat s) = totalThreads s" "sleep (log lv msg dat s) = sleep s"
  "tasks (log lv msg dat s) = tasks s" "taskGroups (log lv msg dat s) = taskGroups s"
  "threads (log lv msg dat s) = threads s" "processing (log lv msg dat s) = processing s"
  "processed (log lv msg dat s) = processed s" "isProcessing (log lv msg dat s) = isProcessing s"
  "isPaused (log lv msg dat s) = isPaused s" "children (log lv msg dat s) = children s"
  "retryCount (log lv msg dat s) = retryCount s" "timeouts (log lv msg dat s) = timeouts s"
  "maxRetry (log lv msg dat s) = maxRetry s" "defaultTimeout (log lv msg dat s) = defaultTimeout s"
  "retryDelay (log lv msg dat s) = retryDelay s"
  "globalRetryLimit (log lv msg dat s) = globalRetryLimit s"
  "globalRetryCount (log lv msg dat s) = globalRetryCount s"
  "taskStatus (log lv msg dat s) = taskStatus s"
  "logLevel (log lv msg dat s) = logLevel s" "killSignal (log lv msg dat s) = killSignal s"
  "procs (log lv msg dat s) = procs s" "loops (log lv msg dat s) = loops s"
  "retryTimers (log lv msg dat s) = retryTimers s" "lanes (log lv msg dat s) = lanes s"
  "runs (log lv msg dat s) = runs s"
  "trace (log lv msg dat s) =
     trace s @ (if levels (logLevel s) \<le> levels lv then [OnLog lv msg dat] else [])"
  by (simp_all add: log_def)

lemma length_upd_proc [simp]: "length (upd_proc pid f ps) = length ps"
  by (simp add: upd_proc_def)

lemma nth_upd_proc:
  "upd_proc pid f ps ! q = (if q = pid \<and> pid < length ps then f (ps ! pid) else ps ! q)"
  by (simp add: upd_proc_def)

lemma length_clearTimeout [simp]: "length (clearTimeout pid ps) = length ps"
  by (simp add: clearTimeout_def)

lemma length_clearTimeouts [simp]: "length (clearTimeouts tab ps) = length ps"
  unfolding clearTimeouts_def by (induction tab arbitrary: ps) simp_all

lemma nth_clearTimeouts:
  "q < length ps \<Longrightarrow>
   clearTimeouts tab ps ! q = (if q \<in> snd ` set tab then (ps ! q)\<lparr>p_timer := None\<rparr> else ps ! q)"
  unfolding clearTimeouts_def
proof (induction tab arbitrary: ps)
  case Nil
  then show ?case by simp
next
  case (Cons a tab)
  then show ?case
    by (cases "q = snd a") (auto simp: clearTimeout_def nth_upd_proc)
qed




definition fresh1 :: "nat \<Rightarrow> manager" where
  "fresh1 mr = constructor 1 100 mr 600000 ''SIGTERM''"

lemmas run_defs =
  exec_def setTasks_def setGroupedTasks_def constructor_def resetState_def clearTimeouts_def
  start_def emit_def log_def runSingle_def dispatch_def findIndex_def eligible_def stop_def
  stopTask_def pause_def continue_def cancelTask_def destroy_def kill_all_def on_close_def
  close_flat_def close_group_def on_failure_def retry_fire_def timer_fire_def on_stdout_def
  on_stderr_def runGroups_def lane_start_def lane_continue_def runSingleTask_def
  finish_run_def run_resolved_def live_def upd_proc_def clearTimeout_def js_set_def
  upt_rec enumerate_eq_zip Let_def fresh1_def



text \<open>
  Claim C2 at a run of one worker slot and three tasks: task 0 is dispatched and stopped
  with \<^verbatim>\<open>stopTask\<close>, the next tick gives the slot to task 1, the close of the killed
  process then writes \<^verbatim>\<open>null\<close> into the slot (line 218) although task 1 holds it, and
  the tick after that dispatches task 2 beside task 1.
\<close>

theorem one_slot_two_in_flight:
  "totalThreads (setTasks [sh ''a'', sh ''b'', sh ''c''] (fresh1 0)) = 1
   \<and> processing
        (exec [Start, StopTask 0 None, Tick]
           (setTasks [sh ''a'', sh ''b'', sh ''c''] (fresh1 0))) = [1]
   \<and> threads
        (exec [Start, StopTask 0 None, Tick, Close 0 None (Some ''SIGTERM'')]
           (setTasks [sh ''a'', sh ''b'', sh ''c''] (fresh1 0))) = [Null]
   \<and> processing
        (exec [Start, StopTask 0 None, Tick, Close 0 None (Some ''SIGTERM''), Tick]
           (setTasks [sh ''a'', sh ''b'', sh ''c''] (fresh1 0))) = [1, 2]"
  by (simp add: run_defs)

text \<open>
  Claim C7 at a run with \<^verbatim>\<open>maxRetry = 1\<close>: \<^verbatim>\<open>stopTask(0)\<close> kills the process of
  task 0 and puts the task into the completed set with status \<open>Stopped\<close>; the close of
  the killed process (exit code \<^verbatim>\<open>null\<close>) then runs the retry policy, which counts a
  failure, takes the task out of the completed set again, and the next tick dispatches
  it a second time.
\<close>

theorem stopped_task_runs_again:
  "processed (exec [Start, StopTask 0 None] (setTasks [sh ''a''] (fresh1 1))) = [0]
   \<and> taskStatus (exec [Start, StopTask 0 None] (setTasks [sh ''a''] (fresh1 1))) 0 = Some Stopped
   \<and> processed
        (exec [Start, StopTask 0 None, Close 0 None (Some ''SIGTERM'')]
           (setTasks [sh ''a''] (fresh1 1))) = []
   \<and> taskStatus
        (exec [Start, StopTask 0 None, Close 0 None (Some ''SIGTERM'')]
           (setTasks [sh ''a''] (fresh1 1))) 0 = Some Failed
   \<and> retryCount
        (exec [Start, StopTask 0 None, Close 0 None (Some ''SIGTERM'')]
           (setTasks [sh ''a''] (fresh1 1))) 0 = Some 1
   \<and> globalRetryCount
        (exec [Start, StopTask 0 None, Close 0 None (Some ''SIGTERM'')]
           (setTasks [sh ''a''] (fresh1 1))) = 1
   \<and> processing
        (exec [Start, StopTask 0 None, Close 0 None (Some ''SIGTERM''), Tick]
           (setTasks [sh ''a''] (fresh1 1))) = [0]
   \<and> length (procs
        (exec [Start, StopTask 0 None, Close 0 None (Some ''SIGTERM''), Tick]
           (setTasks [sh ''a''] (fresh1 1)))) = 2"
  by (simp add: run_defs)

subsection \<open>Children ever spawned\<close>

definition spawned :: "manager \<Rightarrow> (nat option \<times> nat) list" where
  "spawned s = map (\<lambda>p. (p_lane p, p_index p)) (procs s)"

definition attempts :: "manager \<Rightarrow> nat \<Rightarrow> nat" where
  "attempts s i = count_list (spawned s) (None, i)"

lemma fold_inv:
  assumes "\<And>x s. P s \<Longrightarrow> P (f x s)" and "P s"
  shows "P (fold f xs s)"
  using assms(2) by (induction xs arbitrary: s) (simp_all add: assms(1))

lemma map_upd_proc:
  assumes "\<And>p. g (f p) = g p"
  shows "map g (upd_proc pid f ps) = map g ps"
  by (simp add: upd_proc_def map_update assms list_update_same_conv)

lemma map_clearTimeout [simp]:
  "map (\<lambda>p. (p_lane p, p_index p)) (clearTimeout pid ps) = map (\<lambda>p. (p_lane p, p_index p)) ps"
  unfolding clearTimeout_def by (rule map_upd_proc) simp

lemma map_clearTimeouts [simp]:
  "map (\<lambda>p. (p_lane p, p_index p)) (clearTimeouts tab ps) = map (\<lambda>p. (p_lane p, p_index p)) ps"
  unfolding clearTimeouts_def by (induction tab arbitrary: ps) simp_all

lemma map_closed [simp]:
  "map (\<lambda>p. (p_lane p, p_index p)) (upd_proc pid (\<lambda>p. p\<lparr>p_closed := True\<rparr>) ps)
   = map (\<lambda>p. (p_lane p, p_index p)) ps"
  by (rule map_upd_proc) simp

lemma map_stdout [simp]:
  "map (\<lambda>p. (p_lane p, p_index p)) (upd_proc pid (\<lambda>p. p\<lparr>p_stdout := p_stdout p @ d\<rparr>) ps)
   = map (\<lambda>p. (p_lane p, p_index p)) ps"
  by (rule map_upd_proc) simp

lemma map_stderr [simp]:
  "map (\<lambda>p. (p_lane p, p_index p)) (upd_proc pid (\<lambda>p. p\<lparr>p_stderr := p_stderr p @ d\<rparr>) ps)
   = map (\<lambda>p. (p_lane p, p_index p)) ps"
  by (rule map_upd_proc) simp

lemma nth_js_set_same [simp]: "js_set xs i v h ! i = v"
  by (simp add: js_set_def nth_append)


lemma nth_js_set_other: "j < length xs \<Longrightarrow> j \<noteq> i \<Longrightarrow> js_set xs i v h ! j = xs ! j"
  by (simp add: js_set_def nth_append)

subsection \<open>A cancelled index\<close>

text \<open>The index has no task specification, is not in flight, and \<open>n\<close> children have been
  spawned for it by the flat loop so far.\<close>

definition skipped :: "nat \<Rightarrow> nat \<Rightarrow> manager \<Rightarrow> bool" where
  "skipped i n s \<longleftrightarrow>
     i < length (tasks s) \<and> tasks s ! i = None \<and> i \<notin> set (processing s) \<and> attempts s i = n"

lemma skipped_frame [simp]:
  "skipped i n (s\<lparr>totalThreads := xtotalThreads\<rparr>) = skipped i n s"
  "skipped i n (s\<lparr>sleep := xsleep\<rparr>) = skipped i n s"
  "skipped i n (s\<lparr>taskGroups := xtaskGroups\<rparr>) = skipped i n s"
  "skipped i n (s\<lparr>threads := xthreads\<rparr>) = skipped i n s"
  "skipped i n (s\<lparr>processed := xprocessed\<rparr>) = skipped i n s"
  "skipped i n (s\<lparr>isProcessing := xisProcessing\<rparr>) = skipped i n s"
  "skipped i n (s\<lparr>isPaused := xisPaused\<rparr>) = skipped i n s"
  "skipped i n (s\<lparr>children := xchildren\<rparr>) = skipped i n s"
  "skipped i n (s\<lparr>retryCount := xretryCount\<rparr>) = skipped i n s"
  "skipped i n (s\<lparr>timeouts := xtimeouts\<rparr>) = skipped i n s"
  "skipped i n (s\<lparr>maxRetry := xmaxRetry\<rparr>) = skipped i n s"
  "skipped i n (s\<lparr>defaultTimeout := xdefaultTimeout\<rparr>) = skipped i n s"
  "skipped i n (s\<lparr>retryDelay := xretryDelay\<rparr>) = skipped i n s"
  "skipped i n (s\<lparr>globalRetryLimit := xglobalRetryLimit\<rparr>) = skipped i n s"
  "skipped i n (s\<lparr>globalRetryCount := xglobalRetryCount\<rparr>) = skipped i n s"
  "skipped i n (s\<lparr>taskStatus := xtaskStatus\<rparr>) = skipped i n s"
  "skipped i n (s\<lparr>logLevel := xlogLevel\<rparr>) = skipped i n s"
  "skipped i n (s\<lparr>killSignal := xkillSignal\<rparr>) = skipped i n s"
  "skipped i n (s\<lparr>loops := xloops\<rparr>) = skipped i n s"
  "skipped i n (s\<lparr>retryTimers := xretryTimers\<rparr>) = skipped i n s"
  "skipped i n (s\<lparr>lanes := xlanes\<rparr>) = skipped i n s"
  "skipped i n (s\<lparr>runs := xruns\<rparr>) = skipped i n s"
  "skipped i n (s\<lparr>trace := xtrace\<rparr>) = skipped i n s"
  by (simp_all add: skipped_def attempts_def spawned_def)



lemma skipped_emit [simp]: "skipped i n (emit es s) = skipped i n s"
  by (simp add: emit_def)

lemma skipped_log [simp]: "skipped i n (log lv msg dat s) = skipped i n s"
  by (simp add: log_def)

















subsection \<open>What a child has captured\<close>

text \<open>Child \<open>pid\<close> exists and, its timer apart, is \<open>X\<close>.\<close>

definition keeps :: "nat \<Rightarrow> proc \<Rightarrow> manager \<Rightarrow> bool" where
  "keeps pid X s \<longleftrightarrow> pid < length (procs s) \<and> (procs s ! pid)\<lparr>p_timer := None\<rparr> = X"

lemma keeps_frame [simp]:
  "keeps pid X (s\<lparr>totalThreads := xtotalThreads\<rparr>) = keeps pid X s"
  "keeps pid X (s\<lparr>sleep := xsleep\<rparr>) = keeps pid X s"
  "keeps pid X (s\<lparr>tasks := xtasks\<rparr>) = keeps pid X s"
  "keeps pid X (s\<lparr>taskGroups := xtaskGroups\<rparr>) = keeps pid X s"
  "keeps pid X (s\<lparr>threads := xthreads\<rparr>) = keeps pid X s"
  "keeps pid X (s\<lparr>processing := xprocessing\<rparr>) = keeps pid X s"
  "keeps pid X (s\<lparr>processed := xprocessed\<rparr>) = keeps pid X s"
  "keeps pid X (s\<lparr>isProcessing := xisProcessing\<rparr>) = keeps pid X s"
  "keeps pid X (s\<lparr>isPaused := xisPaused\<rparr>) = keeps pid X s"
  "keeps pid X (s\<lparr>children := xchildren\<rparr>) = keeps pid X s"
  "keeps pid X (s\<lparr>retryCount := xretryCount\<rparr>) = keeps pid X s"
  "keeps pid X (s\<lparr>timeouts := xtimeouts\<rparr>) = keeps pid X s"
  "keeps pid X (s\<lparr>maxRetry := xmaxRetry\<rparr>) = keeps pid X s"
  "keeps pid X (s\<lparr>defaultTimeout := xdefaultTimeout\<rparr>) = keeps pid X s"
  "keeps pid X (s\<lparr>retryDelay := xretryDelay\<rparr>) = keeps pid X s"
  "keeps pid X (s\<lparr>globalRetryLimit := xglobalRetryLimit\<rparr>) = keeps pid X s"
  "keeps pid X (s\<lparr>globalRetryCount := xglobalRetryCount\<rparr>) = keeps pid X s"
  "keeps pid X (s\<lparr>taskStatus := xtaskStatus\<rparr>) = keeps pid X s"
  "keeps pid X (s\<lparr>logLevel := xlogLevel\<rparr>) = keeps pid X s"
  "keeps pid X (s\<lparr>killSignal := xkillSignal\<rparr>) = keeps pid X s"
  "keeps pid X (s\<lparr>loops := xloops\<rparr>) = keeps pid X s"
  "keeps pid X (s\<lparr>retryTimers := xretryTimers\<rparr>) = keeps pid X s"
  "keeps pid X (s\<lparr>lanes := xlanes\<rparr>) = keeps pid X s"
  "keeps pid X (s\<lparr>runs := xruns\<rparr>) = keeps pid X s"
  "keeps pid X (s\<lparr>trace := xtrace\<rparr>) = keeps pid X s"
  by (simp_all add: keeps_def)

lemma keeps_emit [simp]: "keeps pid X (emit es s) = keeps pid X s"
  by (simp add: emit_def)

lemma keeps_log [simp]: "keeps pid X (log lv msg dat s) = keeps pid X s"
  by (simp add: log_def)

lemma nth_clearTimeout:
  "clearTimeout tm ps ! q = (if q = tm \<and> tm < length ps then (ps ! q)\<lparr>p_timer := None\<rparr> else ps ! q)"
  by (simp add: clearTimeout_def nth_upd_proc)

lemma keeps_clearTimeout [simp]:
  "keeps pid X (s\<lparr>procs := clearTimeout tm (procs s)\<rparr>) = keeps pid X s"
  by (auto simp: keeps_def nth_clearTimeout)

lemma keeps_clearTimeouts [simp]:
  "keeps pid X (s\<lparr>procs := clearTimeouts tab (procs s)\<rparr>) = keeps pid X s"
  by (auto simp: keeps_def nth_clearTimeouts)

lemma keeps_procs:
  "length ps = length (procs s) \<Longrightarrow>
   (pid < length ps \<longrightarrow> (ps ! pid)\<lparr>p_timer := None\<rparr> = (procs s ! pid)\<lparr>p_timer := None\<rparr>) \<Longrightarrow>
   keeps pid X (s\<lparr>procs := ps\<rparr>) = keeps pid X s"
  by (auto simp: keeps_def)

lemma keeps_upd_other:
  "q \<noteq> pid \<Longrightarrow> keeps pid X (s\<lparr>procs := upd_proc q f (procs s)\<rparr>) = keeps pid X s"
  by (simp add: keeps_def nth_upd_proc)

lemma keeps_append:
  "keeps pid X s \<Longrightarrow> keeps pid X (s\<lparr>procs := procs s @ ps\<rparr>)"
  by (simp add: keeps_def nth_append)

lemma keeps_dispatch: "keeps pid X s \<Longrightarrow> keeps pid X (dispatch t s)"
  by (auto simp: keeps_def dispatch_def Let_def nth_append split: option.splits)

lemma keeps_runSingle: "keeps pid X s \<Longrightarrow> keeps pid X (runSingle s)"
proof -
  assume a: "keeps pid X s"
  have "keeps pid X (fold dispatch ts (emit es s))" for ts es
    by (rule fold_inv [where P = "keeps pid X"]) (simp_all add: keeps_dispatch a)
  with a show ?thesis
    by (simp add: runSingle_def Let_def)
qed

lemma keeps_runSingleTask: "keeps pid X s \<Longrightarrow> keeps pid X (runSingleTask l g k tsk s)"
  by (simp add: keeps_def runSingleTask_def Let_def nth_append)

lemma keeps_lane_continue: "keeps pid X s \<Longrightarrow> keeps pid X (lane_continue l s)"
  by (simp add: lane_continue_def Let_def keeps_runSingleTask)

lemma keeps_finish_run: "keeps pid X s \<Longrightarrow> keeps pid X (finish_run r s)"
  by (simp add: finish_run_def)

lemma keeps_lane_start: "keeps pid X s \<Longrightarrow> keeps pid X (lane_start r g s)"
  by (simp add: lane_start_def keeps_lane_continue)

lemma keeps_runGroups: "keeps pid X s \<Longrightarrow> keeps pid X (runGroups s)"
proof -
  assume a: "keeps pid X s"
  have "keeps pid X (fold (lane_start r) gs (s\<lparr>runs := x\<rparr>))" for r gs x
    by (rule fold_inv [where P = "keeps pid X"]) (simp_all add: keeps_lane_start a)
  then show ?thesis
    by (simp add: runGroups_def Let_def keeps_finish_run)
qed

lemma keeps_on_failure: "keeps pid X s \<Longrightarrow> keeps pid X (on_failure k s)"
  by (simp add: on_failure_def Let_def)

lemma keeps_close_flat:
  "keeps pid X s \<Longrightarrow> q \<noteq> pid \<Longrightarrow> keeps pid X (close_flat q code sig s)"
  by (auto simp: keeps_def close_flat_def Let_def nth_upd_proc nth_clearTimeout
      keeps_on_failure [unfolded keeps_def] split: option.splits)

lemma keeps_close_group:
  "keeps pid X s \<Longrightarrow> q \<noteq> pid \<Longrightarrow> keeps pid X (close_group l q code sig s)"
  by (simp add: close_group_def Let_def keeps_finish_run keeps_lane_continue keeps_procs
      nth_upd_proc)

fun touches :: "nat \<Rightarrow> event \<Rightarrow> bool" where
  "touches pid (Stdout q d) = (q = pid)"
| "touches pid (Stderr q d) = (q = pid)"
| "touches pid (Close q code sig) = (q = pid)"
| "touches pid e = False"

lemma keeps_step: "keeps pid X s \<Longrightarrow> \<not> touches pid e \<Longrightarrow> keeps pid X (step e s)"
proof (cases e)
  case Start
  then show "keeps pid X s \<Longrightarrow> ?thesis"
    by (simp add: start_def Let_def keeps_runGroups keeps_runSingle)
next
  case (Stop sg)
  then show "keeps pid X s \<Longrightarrow> ?thesis"
    by (simp add: stop_def kill_all_def Let_def keeps_procs nth_clearTimeouts)
next
  case (StopTask k sg)
  then show "keeps pid X s \<Longrightarrow> ?thesis"
    by (simp add: stopTask_def Let_def split: option.splits)
next
  case Pause
  then show "keeps pid X s \<Longrightarrow> ?thesis"
    by (simp add: pause_def)
next
  case Continue
  then show "keeps pid X s \<Longrightarrow> ?thesis"
    by (simp add: continue_def keeps_runSingle)
next
  case (CancelTask k)
  then show "keeps pid X s \<Longrightarrow> ?thesis"
    by (simp add: cancelTask_def)
next
  case Tick
  then show "keeps pid X s \<Longrightarrow> ?thesis"
    by (simp add: keeps_runSingle)
next
  case RetryTimer
  then show "keeps pid X s \<Longrightarrow> ?thesis"
    by (simp add: retry_fire_def Let_def keeps_runSingle)
next
  case (TimerFire q)
  then show "keeps pid X s \<Longrightarrow> ?thesis"
    by (simp add: timer_fire_def Let_def keeps_procs nth_clearTimeout)
next
  case (Stdout q d)
  then show "keeps pid X s \<Longrightarrow> \<not> touches pid e \<Longrightarrow> ?thesis"
    by (simp add: on_stdout_def Let_def keeps_procs nth_upd_proc)
next
  case (Stderr q d)
  then show "keeps pid X s \<Longrightarrow> \<not> touches pid e \<Longrightarrow> ?thesis"
    by (simp add: on_stderr_def Let_def keeps_procs nth_upd_proc)
next
  case (Close q code sig)
  then show "keeps pid X s \<Longrightarrow> \<not> touches pid e \<Longrightarrow> ?thesis"
    by (simp add: on_close_def keeps_close_flat keeps_close_group split: option.splits)
qed

subsection \<open>Output of a child\<close>

fun out_of :: "nat \<Rightarrow> event \<Rightarrow> string" where
  "out_of pid (Stdout q d) = (if q = pid then d else [])"
| "out_of pid e = []"

fun err_of :: "nat \<Rightarrow> event \<Rightarrow> string" where
  "err_of pid (Stderr q d) = (if q = pid then d else [])"
| "err_of pid e = []"

fun closes :: "nat \<Rightarrow> event \<Rightarrow> bool" where
  "closes pid (Close q code sig) = (q = pid)"
| "closes pid e = False"

fun is_task_error :: "effect \<Rightarrow> bool" where
  "is_task_error (OnTaskError t i task code sig err) = True"
| "is_task_error e = False"

lemma accumulate_step:
  assumes "keeps pid X s" and "\<not> p_closed X" and "\<not> closes pid e"
  shows "keeps pid (X\<lparr>p_stdout := p_stdout X @ out_of pid e,
                      p_stderr := p_stderr X @ err_of pid e\<rparr>) (step e s)"
proof (cases "touches pid e")
  case False
  then have "out_of pid e = []" and "err_of pid e = []"
    by (cases e; simp)+
  with keeps_step [OF assms(1) False] show ?thesis
    by simp
next
  case True
  from assms(1,2) have l: "live s pid"
    by (auto simp: keeps_def live_def)
  from True assms(3) consider d where "e = Stdout pid d" | d where "e = Stderr pid d"
    by (cases e) auto
  then show ?thesis
  proof cases
    case 1
    with assms(1) l show ?thesis
      by (auto simp: keeps_def on_stdout_def Let_def nth_upd_proc)
  next
    case 2
    with assms(1) l show ?thesis
      by (auto simp: keeps_def on_stderr_def Let_def nth_upd_proc)
  qed
qed

lemma accumulate_exec:
  "keeps pid X s \<Longrightarrow> \<not> p_closed X \<Longrightarrow> \<forall>e \<in> set evs. \<not> closes pid e \<Longrightarrow>
   keeps pid (X\<lparr>p_stdout := p_stdout X @ concat (map (out_of pid) evs),
                 p_stderr := p_stderr X @ concat (map (err_of pid) evs)\<rparr>) (exec evs s)"
proof (induction evs arbitrary: X s)
  case Nil
  then show ?case by (simp add: exec_def)
next
  case (Cons e evs)
  let ?X = "X\<lparr>p_stdout := p_stdout X @ out_of pid e, p_stderr := p_stderr X @ err_of pid e\<rparr>"
  from Cons.prems have "keeps pid ?X (step e s)"
    by (simp add: accumulate_step)
  moreover from Cons.prems have "\<not> p_closed ?X" and "\<forall>e \<in> set evs. \<not> closes pid e"
    by simp_all
  ultimately have "keeps pid
      (?X\<lparr>p_stdout := p_stdout ?X @ concat (map (out_of pid) evs),
           p_stderr := p_stderr ?X @ concat (map (err_of pid) evs)\<rparr>) (exec evs (step e s))"
    by (rule Cons.IH)
  then show ?case
    by (simp add: exec_def)
qed

lemma close_flat_trace:
  "\<exists>rest. trace (close_flat pid code sig s) =
     trace s @
     [AfterRunTask pid (p_thread (procs s ! pid)) (p_index (procs s ! pid))
        (p_task (procs s ! pid)) code sig (p_stdout (procs s ! pid)) (p_stderr (procs s ! pid)),
      OnStopTask (p_index (procs s ! pid)) (Some (p_task (procs s ! pid)))]
     @ (if code \<noteq> Some 0
        then [OnTaskError (p_thread (procs s ! pid)) (p_index (procs s ! pid))
                (p_task (procs s ! pid)) code sig (p_stderr (procs s ! pid))]
        else [])
     @ rest"
  by (simp add: close_flat_def on_failure_def Let_def)

text \<open>
  Claim C9, as the code has it. Take a child of the flat loop that has not closed, and
  any run in which it does not close. When it then closes, the after-run hook is called
  with the whole standard output and the whole standard error: what the child had
  accumulated before the run followed by every chunk the run delivered (each chunk also
  went to its chunk hook when it arrived). On an exit code other than 0 the task-error
  hook is called next, with the whole standard error; it has no parameter for the
  standard output.
\<close>

theorem close_reports_output:
  assumes "live s pid" and "p_lane (procs s ! pid) = None"
    and "\<forall>e \<in> set evs. \<not> closes pid e"
    and "out = p_stdout (procs s ! pid) @ concat (map (out_of pid) evs)"
    and "err = p_stderr (procs s ! pid) @ concat (map (err_of pid) evs)"
    and "t = p_thread (procs s ! pid)" and "i = p_index (procs s ! pid)"
    and "task = p_task (procs s ! pid)"
  shows "(\<exists>rest. trace (step (Close pid code sig) (exec evs s)) =
           trace (exec evs s)
           @ [AfterRunTask pid t i task code sig out err, OnStopTask i (Some task)]
           @ (if code \<noteq> Some 0 then [OnTaskError t i task code sig err] else [])
           @ rest)
       \<and> (\<forall>d. trace (step (Stdout pid d) (exec evs s))
                = trace (exec evs s) @ [OnTaskStdout t i task d])
       \<and> (\<forall>d. trace (step (Stderr pid d) (exec evs s))
                = trace (exec evs s) @ [OnTaskStderr t i task d])"
proof -
  let ?X = "(procs s ! pid)\<lparr>p_timer := None\<rparr>"
  let ?s = "exec evs s"
  from assms(1) have "keeps pid ?X s" and "\<not> p_closed ?X"
    by (simp_all add: keeps_def live_def)
  from accumulate_exec [OF this assms(3)] have k: "pid < length (procs ?s)"
    and x: "(procs ?s ! pid)\<lparr>p_timer := None\<rparr> = ?X\<lparr>p_stdout := out, p_stderr := err\<rparr>"
    by (simp_all add: keeps_def assms(4,5))
  have f: "p_thread (procs ?s ! pid) = t" "p_index (procs ?s ! pid) = i"
    "p_task (procs ?s ! pid) = task" "p_lane (procs ?s ! pid) = None"
    "p_stdout (procs ?s ! pid) = out" "p_stderr (procs ?s ! pid) = err"
    "\<not> p_closed (procs ?s ! pid)"
    using arg_cong [OF x, of p_thread] arg_cong [OF x, of p_index] arg_cong [OF x, of p_task]
      arg_cong [OF x, of p_lane] arg_cong [OF x, of p_stdout] arg_cong [OF x, of p_stderr]
      arg_cong [OF x, of p_closed] assms(1,2,6,7,8)
    by (simp_all add: live_def)
  from k f have l: "live ?s pid"
    by (simp add: live_def)
  from close_flat_trace [of pid code sig ?s] obtain rest where
    "trace (close_flat pid code sig ?s) =
       trace ?s @ [AfterRunTask pid t i task code sig out err, OnStopTask i (Some task)]
       @ (if code \<noteq> Some 0 then [OnTaskError t i task code sig err] else []) @ rest"
    unfolding f by blast
  with l f have "\<exists>rest. trace (step (Close pid code sig) ?s) =
       trace ?s @ [AfterRunTask pid t i task code sig out err, OnStopTask i (Some task)]
       @ (if code \<noteq> Some 0 then [OnTaskError t i task code sig err] else []) @ rest"
    by (simp add: on_close_def)
  moreover from l f have "\<forall>d. trace (step (Stdout pid d) ?s) = trace ?s @ [OnTaskStdout t i task d]"
    and "\<forall>d. trace (step (Stderr pid d) ?s) = trace ?s @ [OnTaskStderr t i task d]"
    by (simp_all add: on_stdout_def on_stderr_def Let_def)
  ultimately show ?thesis
    by blast
qed

text \<open>The theorem at one task whose child writes two chunks to standard output and one
  to standard error and exits with code 1.\<close>

theorem close_reports_output_witness:
  "live (exec [Start] (setTasks [sh ''a''] (fresh1 0))) 0
   \<and> AfterRunTask 0 0 0 (sh ''a'') (Some 1) None ''abc'' ''x''
       \<in> set (trace (exec [Start, Stdout 0 ''ab'', Stderr 0 ''x'', Stdout 0 ''c'',
                            Close 0 (Some 1) None] (setTasks [sh ''a''] (fresh1 0))))
   \<and> OnTaskError 0 0 (sh ''a'') (Some 1) None ''x''
       \<in> set (trace (exec [Start, Stdout 0 ''ab'', Stderr 0 ''x'', Stdout 0 ''c'',
                            Close 0 (Some 1) None] (setTasks [sh ''a''] (fresh1 0))))"
proof -
  let ?s = "exec [Start] (setTasks [sh ''a''] (fresh1 0))"
  let ?evs = "[Stdout 0 ''ab'', Stderr 0 ''x'', Stdout 0 ''c'']"
  have a: "live ?s 0" and b: "procs ?s ! 0 =
      \<lparr>p_thread = 0, p_index = 0, p_task = sh ''a'', p_stdout = [], p_stderr = [],
       p_closed = False, p_timer = Some 600000, p_lane = None\<rparr>"
    by (simp_all add: run_defs sh_def)
  have c: "exec [Start, Stdout 0 ''ab'', Stderr 0 ''x'', Stdout 0 ''c'', Close 0 (Some 1) None]
             (setTasks [sh ''a''] (fresh1 0)) = step (Close 0 (Some 1) None) (exec ?evs ?s)"
    by (simp add: exec_def)
  from close_reports_output [of ?s 0 ?evs "''abc''" "''x''" 0 0 "sh ''a''" "Some 1" None] a b
  obtain rest where "trace (step (Close 0 (Some 1) None) (exec ?evs ?s)) =
      trace (exec ?evs ?s)
      @ [AfterRunTask 0 0 0 (sh ''a'') (Some 1) None ''abc'' ''x'', OnStopTask 0 (Some (sh ''a''))]
      @ [OnTaskError 0 0 (sh ''a'') (Some 1) None ''x''] @ rest"
    by auto
  with a c show ?thesis
    by simp
qed

text \<open>
  Against C9 as stated: two runs that differ only in what the child writes to standard
  output call the after-run hook with different texts, and the task-error hook with the
  same arguments: the standard output does not reach it.
\<close>

theorem error_hook_without_stdout:
  "filter is_task_error
     (trace (exec [Start, Stdout 0 ''one'', Stderr 0 ''x'', Close 0 (Some 1) None]
               (setTasks [sh ''a''] (fresh1 0))))
   = [OnTaskError 0 0 (sh ''a'') (Some 1) None ''x'']
   \<and> filter is_task_error
       (trace (exec [Start, Stdout 0 ''two'', Stderr 0 ''x'', Close 0 (Some 1) None]
                 (setTasks [sh ''a''] (fresh1 0))))
     = [OnTaskError 0 0 (sh ''a'') (Some 1) None ''x'']
   \<and> AfterRunTask 0 0 0 (sh ''a'') (Some 1) None ''one'' ''x''
       \<in> set (trace (exec [Start, Stdout 0 ''one'', Stderr 0 ''x'', Close 0 (Some 1) None]
                 (setTasks [sh ''a''] (fresh1 0))))
   \<and> AfterRunTask 0 0 0 (sh ''a'') (Some 1) None ''two'' ''x''
       \<in> set (trace (exec [Start, Stdout 0 ''two'', Stderr 0 ''x'', Close 0 (Some 1) None]
                 (setTasks [sh ''a''] (fresh1 0))))"
  by (simp add: run_defs)

subsection \<open>A halted scheduler\<close>

text \<open>The processing flag is clear and \<open>n\<close> children have been spawned so far.\<close>

definition halted :: "nat \<Rightarrow> manager \<Rightarrow> bool" where
  "halted n s \<longleftrightarrow> \<not> isProcessing s \<and> length (procs s) = n"


fun is_kill :: "effect \<Rightarrow> bool" where
  "is_kill (Kill pid sig) = True"
| "is_kill e = False"

lemma halted_frame [simp]:
  "halted n (s\<lparr>totalThreads := xtotalThreads\<rparr>) = halted n s"
  "halted n (s\<lparr>sleep := xsleep\<rparr>) = halted n s"
  "halted n (s\<lparr>tasks := xtasks\<rparr>) = halted n s"
  "halted n (s\<lparr>taskGroups := xtaskGroups\<rparr>) = halted n s"
  "halted n (s\<lparr>threads := xthreads\<rparr>) = halted n s"
  "halted n (s\<lparr>processing := xprocessing\<rparr>) = halted n s"
  "halted n (s\<lparr>processed := xprocessed\<rparr>) = halted n s"
  "halted n (s\<lparr>isPaused := xisPaused\<rparr>) = halted n s"
  "halted n (s\<lparr>children := xchildren\<rparr>) = halted n s"
  "halted n (s\<lparr>retryCount := xretryCount\<rparr>) = halted n s"
  "halted n (s\<lparr>timeouts := xtimeouts\<rparr>) = halted n s"
  "halted n (s\<lparr>maxRetry := xmaxRetry\<rparr>) = halted n s"
  "halted n (s\<lparr>defaultTimeout := xdefaultTimeout\<rparr>) = halted n s"
  "halted n (s\<lparr>retryDelay := xretryDelay\<rparr>) = halted n s"
  "halted n (s\<lparr>globalRetryLimit := xglobalRetryLimit\<rparr>) = halted n s"
  "halted n (s\<lparr>globalRetryCount := xglobalRetryCount\<rparr>) = halted n s"
  "halted n (s\<lparr>taskStatus := xtaskStatus\<rparr>) = halted n s"
  "halted n (s\<lparr>logLevel := xlogLevel\<rparr>) = halted n s"
  "halted n (s\<lparr>killSignal := xkillSignal\<rparr>) = halted n s"
  "halted n (s\<lparr>loops := xloops\<rparr>) = halted n s"
  "halted n (s\<lparr>retryTimers := xretryTimers\<rparr>) = halted n s"
  "halted n (s\<lparr>lanes := xlanes\<rparr>) = halted n s"
  "halted n (s\<lparr>runs := xruns\<rparr>) = halted n s"
  "halted n (s\<lparr>trace := xtrace\<rparr>) = halted n s"
  by (simp_all add: halted_def)

lemma halted_emit [simp]: "halted n (emit es s) = halted n s"
  by (simp add: emit_def)

lemma halted_log [simp]: "halted n (log lv msg dat s) = halted n s"
  by (simp add: log_def)










subsection \<open>Destroy\<close>

lemma filter_kill_map [simp]:
  "filter is_kill (map (\<lambda>(idx, q). Kill q x) xs) = map (\<lambda>(idx, q). Kill q x) xs"
  by (induction xs) auto

text \<open>
  Claim C6, as the code has it. \<^verbatim>\<open>destroy(signal)\<close> leaves the processing and pause
  flags, the handle table, the timers, the in-flight set and the completed set exactly as
  \<^verbatim>\<open>stop(signal)\<close> does, and sends the same signals; it does not call the two hooks of
  \<^verbatim>\<open>stop\<close>, its only hook is the destroy hook, called last; it empties the flat task
  storage and the slot table. Consequently, on a manager without lanes, \<^verbatim>\<open>start()\<close>
  after \<^verbatim>\<open>destroy()\<close> does not throw, spawns nothing and calls the all-done hook at once
  with total 0.
\<close>

theorem destroy_clears:
  "isProcessing (destroy sg s) = isProcessing (stop sg s) \<and> \<not> isProcessing (destroy sg s)
   \<and> isPaused (destroy sg s) = isPaused (stop sg s) \<and> \<not> isPaused (destroy sg s)
   \<and> children (destroy sg s) = children (stop sg s) \<and> children (destroy sg s) = []
   \<and> timeouts (destroy sg s) = timeouts (stop sg s) \<and> timeouts (destroy sg s) = []
   \<and> procs (destroy sg s) = procs (stop sg s)
   \<and> procs (destroy sg s) = clearTimeouts (timeouts s) (procs s)
   \<and> processing (destroy sg s) = processing (stop sg s) \<and> processing (destroy sg s) = []
   \<and> processed (destroy sg s) = processed (stop sg s) \<and> processed (destroy sg s) = []
   \<and> filter is_kill (trace (destroy sg s)) = filter is_kill (trace (stop sg s))
   \<and> trace (destroy sg s) =
       trace s
       @ map (\<lambda>(idx, q). Kill q (case sg of Some x \<Rightarrow> x | None \<Rightarrow> killSignal s)) (children s)
       @ [OnDestroy]
   \<and> tasks (destroy sg s) = [] \<and> threads (destroy sg s) = []
   \<and> (taskGroups s = [] \<longrightarrow>
        (\<exists>s'. start (destroy sg s) = Inr s'
              \<and> trace s' = trace (destroy sg s) @ [BeforeStart [], AfterStart, OnAllTasksDone 0]
              \<and> procs s' = procs (destroy sg s) \<and> \<not> isProcessing s'))"
  by (simp add: destroy_def stop_def kill_all_def Let_def start_def runSingle_def)

text \<open>The theorem at a flat manager whose only task is running when it is destroyed.\<close>

theorem destroy_clears_witness:
  "taskGroups (exec [Start] (setTasks [sh ''a''] (fresh1 0))) = []
   \<and> trace (exec [Start] (destroy None (exec [Start] (setTasks [sh ''a''] (fresh1 0)))))
     = trace (exec [Start] (setTasks [sh ''a''] (fresh1 0)))
       @ [Kill 0 ''SIGTERM'', OnDestroy, BeforeStart [], AfterStart, OnAllTasksDone 0]"
proof -
  let ?s = "exec [Start] (setTasks [sh ''a''] (fresh1 0))"
  have a: "taskGroups ?s = []" and b: "children ?s = [(0, 0)]"
    and c: "killSignal ?s = ''SIGTERM''"
    by (simp_all add: run_defs)
  from destroy_clears [of None ?s] a obtain s' where "start (destroy None ?s) = Inr s'"
    and "trace s' = trace (destroy None ?s) @ [BeforeStart [], AfterStart, OnAllTasksDone 0]"
    and "trace (destroy None ?s) = trace ?s
       @ map (\<lambda>(idx, q). Kill q (case None of Some x \<Rightarrow> x | None \<Rightarrow> killSignal ?s)) (children ?s)
       @ [OnDestroy]"
    by blast
  with a b c show ?thesis
    by (simp add: exec_def)
qed

text \<open>
  Against C6 as stated. On a flat manager with a running task, \<^verbatim>\<open>stop\<close> calls its
  before-stop hook and refills the slot table, \<^verbatim>\<open>destroy\<close> does neither. On a grouped
  manager \<^verbatim>\<open>destroy\<close> leaves the lane storage as it is, and \<^verbatim>\<open>start()\<close> after it
  spawns the first task of the lane again instead of reporting a total of 0.
\<close>

theorem destroy_is_not_stop:
  "BeforeStop \<in> set (trace (stop None (exec [Start] (setTasks [sh ''a''] (fresh1 0)))))
   \<and> BeforeStop \<notin> set (trace (destroy None (exec [Start] (setTasks [sh ''a''] (fresh1 0)))))
   \<and> threads (stop None (exec [Start] (setTasks [sh ''a''] (fresh1 0)))) = [Null]
   \<and> threads (destroy None (exec [Start] (setTasks [sh ''a''] (fresh1 0)))) = []
   \<and> taskGroups (destroy None (exec [Start] (setGroupedTasks [[sh ''a'']] (fresh1 0))))
       = [[sh ''a'']]
   \<and> OnAllTasksDone 0
       \<notin> set (trace (exec [Start]
                  (destroy None (exec [Start] (setGroupedTasks [[sh ''a'']] (fresh1 0))))))
   \<and> Spawn 1 (sh ''a'')
       \<in> set (trace (exec [Start]
                  (destroy None (exec [Start] (setGroupedTasks [[sh ''a'']] (fresh1 0))))))"
  by (simp add: run_defs)

subsection \<open>Indices of the installed list\<close>

text \<open>\<open>P\<close> lists the children spawned before the task list was installed; those of them
  that a flat run had spawned have closed. At least \<open>n\<close> tasks are installed; the
  completed set has no duplicates; every index for which the flat loop has spawned a child
  since the installation is an index of the task list; and the completed set, the
  in-flight set and the handle table hold such indices only.\<close>

definition tracked :: "(nat option \<times> nat) list \<Rightarrow> nat \<Rightarrow> manager \<Rightarrow> bool" where
  "tracked P n s \<longleftrightarrow>
     n \<le> length (tasks s) \<and> distinct (processed s)
     \<and> length P \<le> length (procs s) \<and> take (length P) (spawned s) = P
     \<and> (\<forall>pid < length P. p_lane (procs s ! pid) = None \<longrightarrow> p_closed (procs s ! pid))
     \<and> (\<forall>k. (None, k) \<in> set (drop (length P) (spawned s)) \<longrightarrow> k < length (tasks s))
     \<and> (\<forall>k \<in> set (processed s) \<union> set (processing s) \<union> fst ` set (children s).
           (None, k) \<in> set (drop (length P) (spawned s)))"

lemma tracked_frame [simp]:
  "tracked P n (s\<lparr>totalThreads := xtotalThreads\<rparr>) = tracked P n s"
  "tracked P n (s\<lparr>sleep := xsleep\<rparr>) = tracked P n s"
  "tracked P n (s\<lparr>taskGroups := xtaskGroups\<rparr>) = tracked P n s"
  "tracked P n (s\<lparr>threads := xthreads\<rparr>) = tracked P n s"
  "tracked P n (s\<lparr>isProcessing := xisProcessing\<rparr>) = tracked P n s"
  "tracked P n (s\<lparr>isPaused := xisPaused\<rparr>) = tracked P n s"
  "tracked P n (s\<lparr>retryCount := xretryCount\<rparr>) = tracked P n s"
  "tracked P n (s\<lparr>timeouts := xtimeouts\<rparr>) = tracked P n s"
  "tracked P n (s\<lparr>maxRetry := xmaxRetry\<rparr>) = tracked P n s"
  "tracked P n (s\<lparr>defaultTimeout := xdefaultTimeout\<rparr>) = tracked P n s"
  "tracked P n (s\<lparr>retryDelay := xretryDelay\<rparr>) = tracked P n s"
  "tracked P n (s\<lparr>globalRetryLimit := xglobalRetryLimit\<rparr>) = tracked P n s"
  "tracked P n (s\<lparr>globalRetryCount := xglobalRetryCount\<rparr>) = tracked P n s"
  "tracked P n (s\<lparr>taskStatus := xtaskStatus\<rparr>) = tracked P n s"
  "tracked P n (s\<lparr>logLevel := xlogLevel\<rparr>) = tracked P n s"
  "tracked P n (s\<lparr>killSignal := xkillSignal\<rparr>) = tracked P n s"
  "tracked P n (s\<lparr>loops := xloops\<rparr>) = tracked P n s"
  "tracked P n (s\<lparr>retryTimers := xretryTimers\<rparr>) = tracked P n s"
  "tracked P n (s\<lparr>lanes := xlanes\<rparr>) = tracked P n s"
  "tracked P n (s\<lparr>runs := xruns\<rparr>) = tracked P n s"
  "tracked P n (s\<lparr>trace := xtrace\<rparr>) = tracked P n s"
  by (simp_all add: tracked_def spawned_def)


lemma tracked_emit [simp]: "tracked P n (emit es s) = tracked P n s"
  by (simp add: emit_def)

lemma tracked_log [simp]: "tracked P n (log lv msg dat s) = tracked P n s"
  by (simp add: log_def)









lemma spawned_nth:
  "pid < length (procs s) \<Longrightarrow> (p_lane (procs s ! pid), p_index (procs s ! pid)) \<in> set (spawned s)"
  by (auto simp: spawned_def image_iff intro!: bexI [of _ "procs s ! pid"])

















subsection \<open>Flat runs left to the event loop\<close>

text \<open>The number of failures counted for index \<open>k\<close>: \<^verbatim>\<open>retryCount[k] || 0\<close>.\<close>

definition failures :: "manager \<Rightarrow> nat \<Rightarrow> nat" where
  "failures s k = (case retryCount s k of Some c \<Rightarrow> c | None \<Rightarrow> 0)"



lemma dispatch_none: "findIndex s = None \<Longrightarrow> dispatch t s = s"
  by (simp add: dispatch_def)

lemma fold_dispatch_none: "findIndex s = None \<Longrightarrow> fold dispatch ts s = s"
  by (induction ts) (simp_all add: dispatch_none)

lemma clearTimeouts_Nil [simp]: "clearTimeouts tab [] = []"
  unfolding clearTimeouts_def
  by (induction tab) (simp_all add: clearTimeout_def upd_proc_def)



text \<open>How the flat loop keeps its books while the caller leaves it alone. The completed
  set has no duplicates and holds indices of the list; an index in flight is not
  completed, and a child of it is open; an armed timer belongs to an open child; and an
  open child is a child of the flat loop, runs a task of the list that is in flight, and
  is the one that the handle table and the timer table record for its index.\<close>

definition orderly :: "nat \<Rightarrow> manager \<Rightarrow> bool" where
  "orderly n s \<longleftrightarrow>
     length (tasks s) = n \<and> distinct (processed s) \<and> (\<forall>k \<in> set (processed s). k < n)
     \<and> (\<forall>k \<in> set (processing s).
           k \<notin> set (processed s)
         \<and> (\<exists>pid < length (procs s). \<not> p_closed (procs s ! pid) \<and> p_index (procs s ! pid) = k))
     \<and> (\<forall>pid < length (procs s).
           (p_timer (procs s ! pid) \<noteq> None \<longrightarrow> \<not> p_closed (procs s ! pid))
         \<and> (\<not> p_closed (procs s ! pid) \<longrightarrow>
               p_lane (procs s ! pid) = None \<and> p_index (procs s ! pid) < n
             \<and> p_index (procs s ! pid) \<in> set (processing s)
             \<and> map_of (children s) (p_index (procs s ! pid)) = Some pid
             \<and> map_of (timeouts s) (p_index (procs s ! pid)) = Some pid))"

lemma orderly_frame [simp]:
  "orderly n (s\<lparr>totalThreads := xtotalThreads\<rparr>) = orderly n s"
  "orderly n (s\<lparr>sleep := xsleep\<rparr>) = orderly n s"
  "orderly n (s\<lparr>taskGroups := xtaskGroups\<rparr>) = orderly n s"
  "orderly n (s\<lparr>threads := xthreads\<rparr>) = orderly n s"
  "orderly n (s\<lparr>isProcessing := xisProcessing\<rparr>) = orderly n s"
  "orderly n (s\<lparr>isPaused := xisPaused\<rparr>) = orderly n s"
  "orderly n (s\<lparr>retryCount := xretryCount\<rparr>) = orderly n s"
  "orderly n (s\<lparr>maxRetry := xmaxRetry\<rparr>) = orderly n s"
  "orderly n (s\<lparr>defaultTimeout := xdefaultTimeout\<rparr>) = orderly n s"
  "orderly n (s\<lparr>retryDelay := xretryDelay\<rparr>) = orderly n s"
  "orderly n (s\<lparr>globalRetryLimit := xglobalRetryLimit\<rparr>) = orderly n s"
  "orderly n (s\<lparr>globalRetryCount := xglobalRetryCount\<rparr>) = orderly n s"
  "orderly n (s\<lparr>taskStatus := xtaskStatus\<rparr>) = orderly n s"
  "orderly n (s\<lparr>logLevel := xlogLevel\<rparr>) = orderly n s"
  "orderly n (s\<lparr>killSignal := xkillSignal\<rparr>) = orderly n s"
  "orderly n (s\<lparr>loops := xloops\<rparr>) = orderly n s"
  "orderly n (s\<lparr>retryTimers := xretryTimers\<rparr>) = orderly n s"
  "orderly n (s\<lparr>lanes := xlanes\<rparr>) = orderly n s"
  "orderly n (s\<lparr>runs := xruns\<rparr>) = orderly n s"
  "orderly n (s\<lparr>trace := xtrace\<rparr>) = orderly n s"
  by (simp_all add: orderly_def)

lemma orderly_emit [simp]: "orderly n (emit es s) = orderly n s"
  by (simp add: emit_def)

lemma orderly_log [simp]: "orderly n (log lv msg dat s) = orderly n s"
  by (simp add: log_def)









text \<open>The retry counters of such a run: no task has failed more than \<^verbatim>\<open>maxRetry + 1\<close>
  times, and a task that is not completed has failed at most \<^verbatim>\<open>maxRetry\<close> times; the
  global counter has grown from \<open>g0\<close> by the failures of all tasks and the limit leaves
  room for every task to fail for good; and once the processing flag is clear, every task
  is completed.\<close>

definition counted :: "nat \<Rightarrow> nat \<Rightarrow> manager \<Rightarrow> bool" where
  "counted g0 n s \<longleftrightarrow>
     (\<forall>k. failures s k \<le> maxRetry s + 1)
     \<and> (\<forall>k. k \<notin> set (processed s) \<longrightarrow> failures s k \<le> maxRetry s)
     \<and> globalRetryCount s = g0 + (\<Sum>k<n. failures s k)
     \<and> g0 + (maxRetry s + 1) * n \<le> globalRetryLimit s
     \<and> (\<not> isProcessing s \<longrightarrow> (\<forall>k<n. k \<in> set (processed s)))"

lemma counted_frame [simp]:
  "counted g0 n (s\<lparr>totalThreads := xtotalThreads\<rparr>) = counted g0 n s"
  "counted g0 n (s\<lparr>sleep := xsleep\<rparr>) = counted g0 n s"
  "counted g0 n (s\<lparr>tasks := xtasks\<rparr>) = counted g0 n s"
  "counted g0 n (s\<lparr>taskGroups := xtaskGroups\<rparr>) = counted g0 n s"
  "counted g0 n (s\<lparr>threads := xthreads\<rparr>) = counted g0 n s"
  "counted g0 n (s\<lparr>processing := xprocessing\<rparr>) = counted g0 n s"
  "counted g0 n (s\<lparr>isPaused := xisPaused\<rparr>) = counted g0 n s"
  "counted g0 n (s\<lparr>children := xchildren\<rparr>) = counted g0 n s"
  "counted g0 n (s\<lparr>timeouts := xtimeouts\<rparr>) = counted g0 n s"
  "counted g0 n (s\<lparr>defaultTimeout := xdefaultTimeout\<rparr>) = counted g0 n s"
  "counted g0 n (s\<lparr>retryDelay := xretryDelay\<rparr>) = counted g0 n s"
  "counted g0 n (s\<lparr>taskStatus := xtaskStatus\<rparr>) = counted g0 n s"
  "counted g0 n (s\<lparr>logLevel := xlogLevel\<rparr>) = counted g0 n s"
  "counted g0 n (s\<lparr>killSignal := xkillSignal\<rparr>) = counted g0 n s"
  "counted g0 n (s\<lparr>procs := xprocs\<rparr>) = counted g0 n s"
  "counted g0 n (s\<lparr>loops := xloops\<rparr>) = counted g0 n s"
  "counted g0 n (s\<lparr>retryTimers := xretryTimers\<rparr>) = counted g0 n s"
  "counted g0 n (s\<lparr>lanes := xlanes\<rparr>) = counted g0 n s"
  "counted g0 n (s\<lparr>runs := xruns\<rparr>) = counted g0 n s"
  "counted g0 n (s\<lparr>trace := xtrace\<rparr>) = counted g0 n s"
  by (simp_all add: counted_def failures_def)

lemma counted_emit [simp]: "counted g0 n (emit es s) = counted g0 n s"
  by (simp add: emit_def)

lemma counted_log [simp]: "counted g0 n (log lv msg dat s) = counted g0 n s"
  by (simp add: log_def)











text \<open>Task \<open>i\<close> in a run in which none of its children exits with code 0. \<open>P\<close> lists the
  children spawned before the installation. Since then the flat loop has spawned one
  child for every failure counted for the task, and one more if the task is in flight;
  and if the task is completed, it has failed \<^verbatim>\<open>maxRetry + 1\<close> times and its status is
  \<open>Failed\<close>.\<close>

definition tally :: "(nat option \<times> nat) list \<Rightarrow> nat \<Rightarrow> manager \<Rightarrow> bool" where
  "tally P i s \<longleftrightarrow>
     length P \<le> length (procs s) \<and> take (length P) (spawned s) = P
     \<and> count_list (drop (length P) (spawned s)) (None, i)
         = failures s i + (if i \<in> set (processing s) then 1 else 0)
     \<and> (i \<in> set (processed s) \<longrightarrow>
           failures s i = maxRetry s + 1 \<and> taskStatus s i = Some Failed)"

lemma tally_frame [simp]:
  "tally P i (s\<lparr>totalThreads := xtotalThreads\<rparr>) = tally P i s"
  "tally P i (s\<lparr>sleep := xsleep\<rparr>) = tally P i s"
  "tally P i (s\<lparr>tasks := xtasks\<rparr>) = tally P i s"
  "tally P i (s\<lparr>taskGroups := xtaskGroups\<rparr>) = tally P i s"
  "tally P i (s\<lparr>threads := xthreads\<rparr>) = tally P i s"
  "tally P i (s\<lparr>isProcessing := xisProcessing\<rparr>) = tally P i s"
  "tally P i (s\<lparr>isPaused := xisPaused\<rparr>) = tally P i s"
  "tally P i (s\<lparr>children := xchildren\<rparr>) = tally P i s"
  "tally P i (s\<lparr>timeouts := xtimeouts\<rparr>) = tally P i s"
  "tally P i (s\<lparr>defaultTimeout := xdefaultTimeout\<rparr>) = tally P i s"
  "tally P i (s\<lparr>retryDelay := xretryDelay\<rparr>) = tally P i s"
  "tally P i (s\<lparr>globalRetryLimit := xglobalRetryLimit\<rparr>) = tally P i s"
  "tally P i (s\<lparr>globalRetryCount := xglobalRetryCount\<rparr>) = tally P i s"
  "tally P i (s\<lparr>logLevel := xlogLevel\<rparr>) = tally P i s"
  "tally P i (s\<lparr>killSignal := xkillSignal\<rparr>) = tally P i s"
  "tally P i (s\<lparr>loops := xloops\<rparr>) = tally P i s"
  "tally P i (s\<lparr>retryTimers := xretryTimers\<rparr>) = tally P i s"
  "tally P i (s\<lparr>lanes := xlanes\<rparr>) = tally P i s"
  "tally P i (s\<lparr>runs := xruns\<rparr>) = tally P i s"
  "tally P i (s\<lparr>trace := xtrace\<rparr>) = tally P i s"
  by (simp_all add: tally_def failures_def spawned_def)

lemma tally_emit [simp]: "tally P i (emit es s) = tally P i s"
  by (simp add: emit_def)

lemma tally_log [simp]: "tally P i (log lv msg dat s) = tally P i s"
  by (simp add: log_def)











text \<open>What keeps such a run going: the manager is not paused and has a slot; every
  installed task has its specification and is not cancelled; and a slot that is not
  free is the slot of an open child, whose close listener will free it.\<close>

definition steady :: "manager \<Rightarrow> bool" where
  "steady s \<longleftrightarrow>
     \<not> isPaused s \<and> 0 < totalThreads s \<and> length (threads s) = totalThreads s
     \<and> (\<forall>k < length (tasks s). tasks s ! k \<noteq> None \<and> taskStatus s k \<noteq> Some Cancelled)
     \<and> (\<forall>pid < length (procs s).
           \<not> p_closed (procs s ! pid) \<longrightarrow> p_thread (procs s ! pid) < length (threads s))
     \<and> (\<forall>t < length (threads s). threads s ! t \<noteq> Null \<longrightarrow>
           (\<exists>pid < length (procs s). \<not> p_closed (procs s ! pid) \<and> p_thread (procs s ! pid) = t))"

lemma steady_frame [simp]:
  "steady (s\<lparr>sleep := xsleep\<rparr>) = steady s"
  "steady (s\<lparr>taskGroups := xtaskGroups\<rparr>) = steady s"
  "steady (s\<lparr>processing := xprocessing\<rparr>) = steady s"
  "steady (s\<lparr>processed := xprocessed\<rparr>) = steady s"
  "steady (s\<lparr>isProcessing := xisProcessing\<rparr>) = steady s"
  "steady (s\<lparr>children := xchildren\<rparr>) = steady s"
  "steady (s\<lparr>retryCount := xretryCount\<rparr>) = steady s"
  "steady (s\<lparr>timeouts := xtimeouts\<rparr>) = steady s"
  "steady (s\<lparr>maxRetry := xmaxRetry\<rparr>) = steady s"
  "steady (s\<lparr>defaultTimeout := xdefaultTimeout\<rparr>) = steady s"
  "steady (s\<lparr>retryDelay := xretryDelay\<rparr>) = steady s"
  "steady (s\<lparr>globalRetryLimit := xglobalRetryLimit\<rparr>) = steady s"
  "steady (s\<lparr>globalRetryCount := xglobalRetryCount\<rparr>) = steady s"
  "steady (s\<lparr>logLevel := xlogLevel\<rparr>) = steady s"
  "steady (s\<lparr>killSignal := xkillSignal\<rparr>) = steady s"
  "steady (s\<lparr>loops := xloops\<rparr>) = steady s"
  "steady (s\<lparr>retryTimers := xretryTimers\<rparr>) = steady s"
  "steady (s\<lparr>lanes := xlanes\<rparr>) = steady s"
  "steady (s\<lparr>runs := xruns\<rparr>) = steady s"
  "steady (s\<lparr>trace := xtrace\<rparr>) = steady s"
  by (simp_all add: steady_def)

lemma steady_emit [simp]: "steady (emit es s) = steady s"
  by (simp add: emit_def)

lemma steady_log [simp]: "steady (log lv msg dat s) = steady s"
  by (simp add: log_def)























subsection \<open>Lanes\<close>

text \<open>Child \<open>pid\<close> belongs to a lane: it runs the task at its position in the lane's
  group, it has no deadline timer, and while it has not closed its lane is unresolved and
  waits for it.\<close>

definition lane_child :: "lane list \<Rightarrow> proc \<Rightarrow> bool" where
  "lane_child ls p \<longleftrightarrow>
     (\<exists>l. p_lane p = Some l \<and> l < length ls
          \<and> p_index p \<le> l_pos (ls ! l) \<and> p_index p < length (l_group (ls ! l))
          \<and> p_task p = l_group (ls ! l) ! p_index p \<and> p_thread p = l_gidx (ls ! l)
          \<and> p_timer p = None
          \<and> (\<not> p_closed p \<longrightarrow> \<not> l_done (ls ! l) \<and> p_index p = l_pos (ls ! l)))"

text \<open>The state of a manager on which the groups \<open>gs\<close> are installed: no flat task has
  a specification; every child is a lane child; the children of one lane were spawned in
  the order of their positions; every lane runs a group of \<open>gs\<close>; and the retry counters
  and the tables of timers and handles are as the installation left them.\<close>

definition grouped :: "task list list \<Rightarrow> nat \<Rightarrow> manager \<Rightarrow> bool" where
  "grouped gs g0 s \<longleftrightarrow>
     taskGroups s = gs \<and> (\<forall>t \<in> set (tasks s). t = None)
     \<and> (\<forall>pid < length (procs s). lane_child (lanes s) (procs s ! pid))
     \<and> (\<forall>pid pid'. pid < pid' \<and> pid' < length (procs s)
            \<and> p_lane (procs s ! pid) = p_lane (procs s ! pid')
          \<longrightarrow> p_index (procs s ! pid) < p_index (procs s ! pid'))
     \<and> (\<forall>l < length (lanes s).
            l_gidx (lanes s ! l) < length gs \<and> l_group (lanes s ! l) = gs ! l_gidx (lanes s ! l))
     \<and> retryCount s = Map.empty \<and> globalRetryCount s = g0 \<and> timeouts s = []
     \<and> children s = []"

text \<open>Lane \<open>l\<close> waits for no child: all its children have closed, at positions before
  its own.\<close>

definition ready :: "nat \<Rightarrow> manager \<Rightarrow> bool" where
  "ready l s \<longleftrightarrow>
     l < length (lanes s)
     \<and> (\<forall>pid < length (procs s). p_lane (procs s ! pid) = Some l \<longrightarrow>
           p_closed (procs s ! pid) \<and> p_index (procs s ! pid) < l_pos (lanes s ! l))"

lemma grouped_frame [simp]:
  "grouped gs g0 (s\<lparr>totalThreads := xtotalThreads\<rparr>) = grouped gs g0 s"
  "grouped gs g0 (s\<lparr>sleep := xsleep\<rparr>) = grouped gs g0 s"
  "grouped gs g0 (s\<lparr>threads := xthreads\<rparr>) = grouped gs g0 s"
  "grouped gs g0 (s\<lparr>processing := xprocessing\<rparr>) = grouped gs g0 s"
  "grouped gs g0 (s\<lparr>processed := xprocessed\<rparr>) = grouped gs g0 s"
  "grouped gs g0 (s\<lparr>isProcessing := xisProcessing\<rparr>) = grouped gs g0 s"
  "grouped gs g0 (s\<lparr>isPaused := xisPaused\<rparr>) = grouped gs g0 s"
  "grouped gs g0 (s\<lparr>maxRetry := xmaxRetry\<rparr>) = grouped gs g0 s"
  "grouped gs g0 (s\<lparr>defaultTimeout := xdefaultTimeout\<rparr>) = grouped gs g0 s"
  "grouped gs g0 (s\<lparr>retryDelay := xretryDelay\<rparr>) = grouped gs g0 s"
  "grouped gs g0 (s\<lparr>globalRetryLimit := xglobalRetryLimit\<rparr>) = grouped gs g0 s"
  "grouped gs g0 (s\<lparr>taskStatus := xtaskStatus\<rparr>) = grouped gs g0 s"
  "grouped gs g0 (s\<lparr>logLevel := xlogLevel\<rparr>) = grouped gs g0 s"
  "grouped gs g0 (s\<lparr>killSignal := xkillSignal\<rparr>) = grouped gs g0 s"
  "grouped gs g0 (s\<lparr>loops := xloops\<rparr>) = grouped gs g0 s"
  "grouped gs g0 (s\<lparr>retryTimers := xretryTimers\<rparr>) = grouped gs g0 s"
  "grouped gs g0 (s\<lparr>runs := xruns\<rparr>) = grouped gs g0 s"
  "grouped gs g0 (s\<lparr>trace := xtrace\<rparr>) = grouped gs g0 s"
  by (simp_all add: grouped_def)

lemma ready_frame [simp]:
  "ready l (s\<lparr>totalThreads := xtotalThreads\<rparr>) = ready l s"
  "ready l (s\<lparr>sleep := xsleep\<rparr>) = ready l s"
  "ready l (s\<lparr>tasks := xtasks\<rparr>) = ready l s"
  "ready l (s\<lparr>taskGroups := xtaskGroups\<rparr>) = ready l s"
  "ready l (s\<lparr>threads := xthreads\<rparr>) = ready l s"
  "ready l (s\<lparr>processing := xprocessing\<rparr>) = ready l s"
  "ready l (s\<lparr>processed := xprocessed\<rparr>) = ready l s"
  "ready l (s\<lparr>isProcessing := xisProcessing\<rparr>) = ready l s"
  "ready l (s\<lparr>isPaused := xisPaused\<rparr>) = ready l s"
  "ready l (s\<lparr>children := xchildren\<rparr>) = ready l s"
  "ready l (s\<lparr>retryCount := xretryCount\<rparr>) = ready l s"
  "ready l (s\<lparr>timeouts := xtimeouts\<rparr>) = ready l s"
  "ready l (s\<lparr>maxRetry := xmaxRetry\<rparr>) = ready l s"
  "ready l (s\<lparr>defaultTimeout := xdefaultTimeout\<rparr>) = ready l s"
  "ready l (s\<lparr>retryDelay := xretryDelay\<rparr>) = ready l s"
  "ready l (s\<lparr>globalRetryLimit := xglobalRetryLimit\<rparr>) = ready l s"
  "ready l (s\<lparr>globalRetryCount := xglobalRetryCount\<rparr>) = ready l s"
  "ready l (s\<lparr>taskStatus := xtaskStatus\<rparr>) = ready l s"
  "ready l (s\<lparr>logLevel := xlogLevel\<rparr>) = ready l s"
  "ready l (s\<lparr>killSignal := xkillSignal\<rparr>) = ready l s"
  "ready l (s\<lparr>loops := xloops\<rparr>) = ready l s"
  "ready l (s\<lparr>retryTimers := xretryTimers\<rparr>) = ready l s"
  "ready l (s\<lparr>runs := xruns\<rparr>) = ready l s"
  "ready l (s\<lparr>trace := xtrace\<rparr>) = ready l s"
  by (simp_all add: ready_def)

lemma grouped_emit [simp]: "grouped gs g0 (emit es s) = grouped gs g0 s"
  by (simp add: emit_def)

lemma grouped_log [simp]: "grouped gs g0 (log lv msg dat s) = grouped gs g0 s"
  by (simp add: log_def)

lemma ready_emit [simp]: "ready l (emit es s) = ready l s"
  by (simp add: emit_def)

lemma ready_log [simp]: "ready l (log lv msg dat s) = ready l s"
  by (simp add: log_def)

lemma runSingleTask_fields:
  "procs (runSingleTask l g k tsk s) = procs s @
     [\<lparr> p_thread = g, p_index = k, p_task = tsk, p_stdout = [], p_stderr = [],
        p_closed = False, p_timer = None, p_lane = Some l \<rparr>]"
  "lanes (runSingleTask l g k tsk s) = lanes s"
  "taskGroups (runSingleTask l g k tsk s) = taskGroups s"
  "tasks (runSingleTask l g k tsk s) = tasks s"
  "retryCount (runSingleTask l g k tsk s) = retryCount s"
  "globalRetryCount (runSingleTask l g k tsk s) = globalRetryCount s"
  "timeouts (runSingleTask l g k tsk s) = timeouts s"
  "children (runSingleTask l g k tsk s) = children s"
  "isProcessing (runSingleTask l g k tsk s) = isProcessing s"
  "loops (runSingleTask l g k tsk s) = loops s"
  "retryTimers (runSingleTask l g k tsk s) = retryTimers s"
  "runs (runSingleTask l g k tsk s) = runs s"
  by (simp_all add: runSingleTask_def Let_def)

lemma grouped_spawn:
  assumes "grouped gs g0 s" and "ready l s" and "\<not> l_done (lanes s ! l)"
    and "l_pos (lanes s ! l) < length (l_group (lanes s ! l))"
  shows "grouped gs g0
           (runSingleTask l (l_gidx (lanes s ! l)) (l_pos (lanes s ! l))
              (l_group (lanes s ! l) ! l_pos (lanes s ! l)) s)"
  using assms unfolding grouped_def ready_def lane_child_def
  by (auto simp: runSingleTask_fields nth_append less_Suc_eq split: option.splits)

lemma lane_child_done:
  assumes "lane_child ls p" and "p_lane p = Some l \<longrightarrow> p_closed p"
  shows "lane_child (ls[l := (ls ! l)\<lparr>l_done := True\<rparr>]) p"
proof -
  from assms(1) obtain l' where "p_lane p = Some l'" and "l' < length ls"
    and "p_index p \<le> l_pos (ls ! l')" and "p_index p < length (l_group (ls ! l'))"
    and "p_task p = l_group (ls ! l') ! p_index p" and "p_thread p = l_gidx (ls ! l')"
    and "p_timer p = None"
    and "\<not> p_closed p \<longrightarrow> \<not> l_done (ls ! l') \<and> p_index p = l_pos (ls ! l')"
    unfolding lane_child_def by blast
  with assms(2) show ?thesis
    unfolding lane_child_def by (cases "l' = l") (simp_all add: nth_list_update)
qed

lemma lane_child_advance:
  assumes "lane_child ls p" and "p_lane p = Some l \<longrightarrow> p_closed p"
  shows "lane_child (ls[l := (ls ! l)\<lparr>l_pos := Suc (l_pos (ls ! l))\<rparr>]) p"
proof -
  from assms(1) obtain l' where "p_lane p = Some l'" and "l' < length ls"
    and "p_index p \<le> l_pos (ls ! l')" and "p_index p < length (l_group (ls ! l'))"
    and "p_task p = l_group (ls ! l') ! p_index p" and "p_thread p = l_gidx (ls ! l')"
    and "p_timer p = None"
    and "\<not> p_closed p \<longrightarrow> \<not> l_done (ls ! l') \<and> p_index p = l_pos (ls ! l')"
    unfolding lane_child_def by blast
  with assms(2) show ?thesis
    unfolding lane_child_def by (cases "l' = l") (simp_all add: nth_list_update)
qed

lemma lane_child_append: "lane_child ls p \<Longrightarrow> lane_child (ls @ [x]) p"
  unfolding lane_child_def by (auto simp: nth_append)

lemma lane_child_closed:
  "lane_child ls p \<Longrightarrow> lane_child ls (p\<lparr>p_closed := True\<rparr>)"
  unfolding lane_child_def by auto

lemma lane_child_stdout:
  "lane_child ls p \<Longrightarrow> lane_child ls (p\<lparr>p_stdout := x\<rparr>)"
  unfolding lane_child_def by auto

lemma lane_child_stderr:
  "lane_child ls p \<Longrightarrow> lane_child ls (p\<lparr>p_stderr := x\<rparr>)"
  unfolding lane_child_def by auto

lemma lane_child_timer:
  "lane_child ls p \<Longrightarrow> lane_child ls (p\<lparr>p_timer := None\<rparr>)"
  unfolding lane_child_def by auto

lemma grouped_done:
  assumes "grouped gs g0 s" and "ready l s"
  shows "grouped gs g0 (s\<lparr>lanes := (lanes s)[l := (lanes s ! l)\<lparr>l_done := True\<rparr>]\<rparr>)"
  using assms unfolding grouped_def ready_def
  by (simp add: lane_child_done nth_list_update)

lemma grouped_lane_continue:
  assumes "grouped gs g0 s" and "ready l s" and "\<not> l_done (lanes s ! l)"
  shows "grouped gs g0 (lane_continue l s)"
  using grouped_spawn [OF assms] grouped_done [OF assms(1,2)]
  by (simp add: lane_continue_def Let_def)

lemma fold_inv_set:
  assumes "\<And>x s. x \<in> set xs \<Longrightarrow> P s \<Longrightarrow> P (f x s)" and "P s"
  shows "P (fold f xs s)"
  using assms by (induction xs arbitrary: s) simp_all

lemma grouped_lane_start:
  assumes "grouped gs g0 s" and "i < length gs"
  shows "grouped gs g0 (lane_start r (i, gs ! i) s)"
proof -
  let ?u = "s\<lparr>lanes := lanes s @
      [\<lparr> l_run = r, l_gidx = i, l_group = gs ! i, l_pos = 0, l_done = False \<rparr>]\<rparr>"
  from assms have "grouped gs g0 ?u"
    unfolding grouped_def by (auto simp: lane_child_append nth_append less_Suc_eq)
  moreover from assms(1) have "ready (length (lanes s)) ?u"
    unfolding grouped_def ready_def lane_child_def by fastforce
  moreover have "\<not> l_done (lanes ?u ! length (lanes s))"
    by simp
  ultimately have "grouped gs g0 (lane_continue (length (lanes s)) ?u)"
    by (rule grouped_lane_continue)
  then show ?thesis
    by (simp add: lane_start_def)
qed

lemma grouped_finish_run: "grouped gs g0 s \<Longrightarrow> grouped gs g0 (finish_run r s)"
  by (simp add: finish_run_def)

lemma grouped_runGroups: "grouped gs g0 s \<Longrightarrow> grouped gs g0 (runGroups s)"
proof -
  assume a: "grouped gs g0 s"
  then have t: "taskGroups s = gs"
    by (simp add: grouped_def)
  have "grouped gs g0 (fold (lane_start r) (List.enumerate 0 gs) (s\<lparr>runs := x\<rparr>))" for r x
  proof (rule fold_inv_set [where P = "grouped gs g0"])
    fix p u
    assume "p \<in> set (List.enumerate 0 gs)" and u: "grouped gs g0 u"
    then have "fst p < length gs" and "snd p = gs ! fst p"
      by (simp_all add: in_set_enumerate_eq)
    with grouped_lane_start [OF u, of "fst p" r] show "grouped gs g0 (lane_start r p u)"
      by (metis prod.collapse)
  qed (simp add: a)
  then show ?thesis
    by (simp add: runGroups_def Let_def t grouped_finish_run)
qed

lemma grouped_no_flat: "grouped gs g0 s \<Longrightarrow> findIndex s = None"
  by (auto simp: grouped_def findIndex_def eligible_def find_None_iff)

lemma grouped_runSingle: "grouped gs g0 s \<Longrightarrow> grouped gs g0 (runSingle s)"
proof -
  assume a: "grouped gs g0 s"
  then have "findIndex (emit es s) = None" for es
    by (intro grouped_no_flat [of gs g0]) simp
  with a show ?thesis
    by (simp add: runSingle_def Let_def fold_dispatch_none)
qed

lemma grouped_cong:
  "taskGroups v = taskGroups u \<Longrightarrow> tasks v = tasks u \<Longrightarrow> procs v = procs u \<Longrightarrow>
   lanes v = lanes u \<Longrightarrow> retryCount v = retryCount u \<Longrightarrow>
   globalRetryCount v = globalRetryCount u \<Longrightarrow> timeouts v = timeouts u \<Longrightarrow>
   children v = children u \<Longrightarrow> grouped gs g0 v = grouped gs g0 u"
  by (simp add: grouped_def)

lemma ready_cong:
  "procs v = procs u \<Longrightarrow> lanes v = lanes u \<Longrightarrow> ready l v = ready l u"
  by (simp add: ready_def)

lemma grouped_close_group:
  assumes "grouped gs g0 s" and "live s pid" and "p_lane (procs s ! pid) = Some l"
  shows "grouped gs g0 (close_group l pid code sig s)"
proof -
  let ?ps = "upd_proc pid (\<lambda>p. p\<lparr>p_closed := True\<rparr>) (procs s)"
  let ?ls = "(lanes s)[l := (lanes s ! l)\<lparr>l_pos := Suc (l_pos (lanes s ! l))\<rparr>]"
  let ?u = "s\<lparr>procs := ?ps, lanes := ?ls\<rparr>"
  from assms(2) have pl: "pid < length (procs s)" and pc: "\<not> p_closed (procs s ! pid)"
    by (simp_all add: live_def)
  from assms(1) pl have "lane_child (lanes s) (procs s ! pid)"
    by (simp add: grouped_def)
  with assms(3) pc have l: "l < length (lanes s)" and d: "\<not> l_done (lanes s ! l)"
    and ix: "p_index (procs s ! pid) = l_pos (lanes s ! l)"
    by (auto simp: lane_child_def)
  have others: "p_closed (procs s ! q) \<and> p_index (procs s ! q) < l_pos (lanes s ! l)"
    if "q < length (procs s)" and "q \<noteq> pid" and "p_lane (procs s ! q) = Some l" for q
  proof -
    from assms(1) that(1) have c: "lane_child (lanes s) (procs s ! q)"
      by (simp add: grouped_def)
    from assms(1) that assms(3) pl have n: "p_index (procs s ! q) \<noteq> p_index (procs s ! pid)"
      unfolding grouped_def
      by (metis less_irrefl linorder_neqE_nat)
    from c that(3) n ix show ?thesis
      by (auto simp: lane_child_def)
  qed
  have g: "grouped gs g0 ?u"
    unfolding grouped_def
  proof (intro conjI allI impI)
    fix q
    assume "q < length (procs ?u)"
    then have q: "q < length (procs s)"
      by simp
    with assms(1) have c: "lane_child (lanes s) (procs s ! q)"
      by (simp add: grouped_def)
    show "lane_child (lanes ?u) (procs ?u ! q)"
    proof (cases "q = pid")
      case True
      with c pl show ?thesis
        by (simp add: nth_upd_proc lane_child_closed lane_child_advance)
    next
      case False
      with others [OF q] have "p_lane (procs s ! q) = Some l \<longrightarrow> p_closed (procs s ! q)"
        by blast
      with c False show ?thesis
        by (simp add: nth_upd_proc lane_child_advance)
    qed
  next
    fix q q'
    assume "q < q' \<and> q' < length (procs ?u) \<and> p_lane (procs ?u ! q) = p_lane (procs ?u ! q')"
    with assms(1) show "p_index (procs ?u ! q) < p_index (procs ?u ! q')"
      unfolding grouped_def by (simp add: nth_upd_proc split: if_splits)
  next
    fix l'
    assume "l' < length (lanes ?u)"
    with assms(1) l show "l_gidx (lanes ?u ! l') < length gs"
      and "l_group (lanes ?u ! l') = gs ! l_gidx (lanes ?u ! l')"
      unfolding grouped_def by (auto simp: nth_list_update)
  qed (use assms(1) in \<open>simp_all add: grouped_def\<close>)
  have r: "ready l ?u"
    unfolding ready_def
  proof (intro conjI allI impI)
    show "l < length (lanes ?u)"
      using l by simp
    fix q
    assume "q < length (procs ?u)" and "p_lane (procs ?u ! q) = Some l"
    then have q: "q < length (procs s)" and ql: "p_lane (procs s ! q) = Some l"
      by (simp_all add: nth_upd_proc split: if_splits)
    show "p_closed (procs ?u ! q)" and "p_index (procs ?u ! q) < l_pos (lanes ?u ! l)"
      using others [OF q _ ql] pl l ix
      by (cases "q = pid"; simp add: nth_upd_proc)+
  qed
  from d l have nd: "\<not> l_done (lanes ?u ! l)"
    by simp
  have w: "grouped gs g0 w" "ready l w" "\<not> l_done (lanes w ! l)"
    if "procs w = ?ps" and "lanes w = ?ls" and "taskGroups w = taskGroups s"
      and "tasks w = tasks s" and "retryCount w = retryCount s"
      and "globalRetryCount w = globalRetryCount s" and "timeouts w = timeouts s"
      and "children w = children s" for w
  proof -
    have "grouped gs g0 w = grouped gs g0 ?u"
      by (rule grouped_cong) (simp_all add: that)
    with g show "grouped gs g0 w"
      by blast
    have "ready l w = ready l ?u"
      by (rule ready_cong) (simp_all add: that)
    with r show "ready l w"
      by blast
    from nd that(2) show "\<not> l_done (lanes w ! l)"
      by simp
  qed
  show ?thesis
    unfolding close_group_def Let_def
    by (auto intro!: grouped_finish_run grouped_lane_continue w simp: l d)
qed

lemma grouped_lane:
  "grouped gs g0 s \<Longrightarrow> pid < length (procs s) \<Longrightarrow>
   (\<exists>l. p_lane (procs s ! pid) = Some l) \<and> p_timer (procs s ! pid) = None"
  by (auto simp: grouped_def lane_child_def)

lemma grouped_output:
  assumes "grouped gs g0 s"
    and "\<And>p. p_lane (f p) = p_lane p \<and> p_index (f p) = p_index p"
    and "\<And>p. lane_child (lanes s) p \<Longrightarrow> lane_child (lanes s) (f p)"
  shows "grouped gs g0 (s\<lparr>procs := upd_proc pid f (procs s)\<rparr>)"
  using assms(1) unfolding grouped_def
  by (auto simp: nth_upd_proc assms(2,3))

lemma set_js_set_None:
  "\<forall>t \<in> set xs. t = None \<Longrightarrow> \<forall>t \<in> set (js_set xs k None None). t = None"
  using set_update_subset_insert [of xs k None] by (auto simp: js_set_def)

lemma grouped_step: "grouped gs g0 s \<Longrightarrow> grouped gs g0 (step e s)"
proof (cases e)
  case Start
  then show "grouped gs g0 s \<Longrightarrow> ?thesis"
    by (simp add: start_def Let_def grouped_runGroups grouped_runSingle)
next
  case (Stop sg)
  assume a: "grouped gs g0 s"
  have "grouped gs g0 (stop sg s) = grouped gs g0 s"
    using a by (intro grouped_cong) (simp_all add: stop_def kill_all_def Let_def grouped_def
        clearTimeouts_def)
  with a Stop show ?thesis
    by simp
next
  case (StopTask k sg)
  assume a: "grouped gs g0 s"
  have "grouped gs g0 (stopTask k sg s) = grouped gs g0 s"
    using a by (intro grouped_cong) (simp_all add: stopTask_def Let_def grouped_def)
  with a StopTask show ?thesis
    by simp
next
  case Pause
  then show "grouped gs g0 s \<Longrightarrow> ?thesis"
    by (simp add: pause_def)
next
  case Continue
  then show "grouped gs g0 s \<Longrightarrow> ?thesis"
    by (simp add: continue_def grouped_runSingle)
next
  case (CancelTask k)
  assume a: "grouped gs g0 s"
  then have "grouped gs g0 (s\<lparr>tasks := js_set (tasks s) k None None\<rparr>)"
    unfolding grouped_def using set_js_set_None [of "tasks s" k] by simp
  with a CancelTask show ?thesis
    by (simp add: cancelTask_def)
next
  case Tick
  then show "grouped gs g0 s \<Longrightarrow> ?thesis"
    by (simp add: grouped_runSingle)
next
  case RetryTimer
  then show "grouped gs g0 s \<Longrightarrow> ?thesis"
    by (simp add: retry_fire_def Let_def grouped_runSingle)
next
  case (TimerFire pid)
  assume a: "grouped gs g0 s"
  with TimerFire show ?thesis
    using grouped_lane [OF a, of pid] by auto
next
  case (Stdout pid d)
  assume a: "grouped gs g0 s"
  have "grouped gs g0 (s\<lparr>procs := upd_proc pid (\<lambda>p. p\<lparr>p_stdout := p_stdout p @ d\<rparr>) (procs s)\<rparr>)"
    by (rule grouped_output [OF a]) (simp_all add: lane_child_stdout)
  with a Stdout show ?thesis
    by (simp add: on_stdout_def Let_def)
next
  case (Stderr pid d)
  assume a: "grouped gs g0 s"
  have "grouped gs g0 (s\<lparr>procs := upd_proc pid (\<lambda>p. p\<lparr>p_stderr := p_stderr p @ d\<rparr>) (procs s)\<rparr>)"
    by (rule grouped_output [OF a]) (simp_all add: lane_child_stderr)
  with a Stderr show ?thesis
    by (simp add: on_stderr_def Let_def)
next
  case (Close pid code sig)
  assume a: "grouped gs g0 s"
  show ?thesis
  proof (cases "live s pid")
    case True
    with grouped_lane [OF a, of pid] obtain l where l: "p_lane (procs s ! pid) = Some l"
      by (auto simp: live_def)
    from grouped_close_group [OF a True l] True l Close show ?thesis
      by (simp add: on_close_def)
  next
    case False
    with a Close show ?thesis
      by simp
  qed
qed

lemma grouped_exec: "grouped gs g0 s \<Longrightarrow> grouped gs g0 (exec evs s)"
  unfolding exec_def by (induction evs arbitrary: s) (simp_all add: grouped_step)

lemma grouped_facts:
  assumes "grouped gs g0 s" and "pid < length (procs s)"
  shows "p_thread (procs s ! pid) < length gs"
    and "p_index (procs s ! pid) < length (gs ! p_thread (procs s ! pid))"
    and "p_task (procs s ! pid) = gs ! p_thread (procs s ! pid) ! p_index (procs s ! pid)"
    and "p_timer (procs s ! pid) = None"
    and "pid' < length (procs s) \<Longrightarrow> p_lane (procs s ! pid') = p_lane (procs s ! pid) \<Longrightarrow>
         p_index (procs s ! pid') = Suc (p_index (procs s ! pid)) \<Longrightarrow>
         p_closed (procs s ! pid) \<and> pid < pid'"
    and "pid' < length (procs s) \<Longrightarrow> p_lane (procs s ! pid') = p_lane (procs s ! pid) \<Longrightarrow>
         \<not> p_closed (procs s ! pid) \<Longrightarrow> \<not> p_closed (procs s ! pid') \<Longrightarrow> pid' = pid"
    and "pid' < length (procs s) \<Longrightarrow> p_lane (procs s ! pid') = p_lane (procs s ! pid) \<Longrightarrow>
         p_index (procs s ! pid') = p_index (procs s ! pid) \<Longrightarrow> pid' = pid"
proof -
  from assms have c: "lane_child (lanes s) (procs s ! pid)"
    by (simp add: grouped_def)
  then obtain l where l: "p_lane (procs s ! pid) = Some l" "l < length (lanes s)"
    "p_index (procs s ! pid) \<le> l_pos (lanes s ! l)"
    "p_index (procs s ! pid) < length (l_group (lanes s ! l))"
    "p_task (procs s ! pid) = l_group (lanes s ! l) ! p_index (procs s ! pid)"
    "p_thread (procs s ! pid) = l_gidx (lanes s ! l)" "p_timer (procs s ! pid) = None"
    "\<not> p_closed (procs s ! pid) \<longrightarrow> p_index (procs s ! pid) = l_pos (lanes s ! l)"
    unfolding lane_child_def by blast
  from assms(1) l(2) have g: "l_gidx (lanes s ! l) < length gs"
    "l_group (lanes s ! l) = gs ! l_gidx (lanes s ! l)"
    by (simp_all add: grouped_def)
  from l g show "p_thread (procs s ! pid) < length gs"
    and "p_index (procs s ! pid) < length (gs ! p_thread (procs s ! pid))"
    and "p_task (procs s ! pid) = gs ! p_thread (procs s ! pid) ! p_index (procs s ! pid)"
    and "p_timer (procs s ! pid) = None"
    by simp_all
  from assms have order: "p_index (procs s ! a) < p_index (procs s ! b)"
    if "a < b" and "b < length (procs s)" and "p_lane (procs s ! a) = p_lane (procs s ! b)" for a b
    using that unfolding grouped_def by blast
  {
    assume p: "pid' < length (procs s)" and s: "p_lane (procs s ! pid') = p_lane (procs s ! pid)"
      and n: "p_index (procs s ! pid') = Suc (p_index (procs s ! pid))"
    from assms(1) p have "lane_child (lanes s) (procs s ! pid')"
      by (simp add: grouped_def)
    with s l(1) have "p_index (procs s ! pid') \<le> l_pos (lanes s ! l)"
      by (auto simp: lane_child_def)
    with n l(8) have "p_closed (procs s ! pid)"
      by auto
    moreover have "pid < pid'"
    proof (rule ccontr)
      assume "\<not> pid < pid'"
      then consider "pid' = pid" | "pid' < pid"
        by linarith
      then show False
      proof cases
        case 1
        with n show False
          by simp
      next
        case 2
        from order [OF 2 assms(2) s] n show False
          by simp
      qed
    qed
    ultimately show "p_closed (procs s ! pid) \<and> pid < pid'"
      by simp
  }
  {
    assume p: "pid' < length (procs s)" and s: "p_lane (procs s ! pid') = p_lane (procs s ! pid)"
      and e: "p_index (procs s ! pid') = p_index (procs s ! pid)"
    show "pid' = pid"
    proof (rule ccontr)
      assume "pid' \<noteq> pid"
      then consider "pid < pid'" | "pid' < pid"
        by linarith
      then show False
      proof cases
        case 1
        from order [OF 1 p] s e show False
          by simp
      next
        case 2
        from order [OF 2 assms(2) s] e show False
          by simp
      qed
    qed
  } note same = this
  {
    assume p: "pid' < length (procs s)" and s: "p_lane (procs s ! pid') = p_lane (procs s ! pid)"
      and a: "\<not> p_closed (procs s ! pid)" and b: "\<not> p_closed (procs s ! pid')"
    from assms(1) p have "lane_child (lanes s) (procs s ! pid')"
      by (simp add: grouped_def)
    with s l(1) b have "p_index (procs s ! pid') = l_pos (lanes s ! l)"
      by (auto simp: lane_child_def)
    with l(8) a have "p_index (procs s ! pid') = p_index (procs s ! pid)"
      by simp
    with p s show "pid' = pid"
      by (rule same)
  }
qed

lemma grouped_install:
  assumes "procs m = []" and "lanes m = []"
  shows "grouped gs (globalRetryCount m) (setGroupedTasks gs m)"
  using assms by (simp add: grouped_def setGroupedTasks_def resetState_def)

subsection \<open>Start and end of a grouped run\<close>

text \<open>The number of children that have not closed.\<close>

definition running :: "manager \<Rightarrow> nat" where
  "running s = length (filter (\<lambda>p. \<not> p_closed p) (procs s))"

lemma lane_start_counts:
  assumes "isProcessing s"
  shows "isProcessing (lane_start r g s)"
    and "length (lanes (lane_start r g s)) = Suc (length (lanes s))"
    and "running (lane_start r g s) = running s + (if snd g = [] then 0 else 1)"
    and "length (procs (lane_start r g s)) = length (procs s) + (if snd g = [] then 0 else 1)"
  using assms
  by (simp_all add: lane_start_def lane_continue_def Let_def runSingleTask_fields running_def)

lemma fold_lane_start_counts:
  "isProcessing s \<Longrightarrow>
   isProcessing (fold (lane_start r) xs s)
   \<and> length (lanes (fold (lane_start r) xs s)) = length (lanes s) + length xs
   \<and> running (fold (lane_start r) xs s) = running s + length (filter (\<lambda>g. snd g \<noteq> []) xs)
   \<and> length (procs (fold (lane_start r) xs s))
       = length (procs s) + length (filter (\<lambda>g. snd g \<noteq> []) xs)"
proof (induction xs arbitrary: s)
  case Nil
  then show ?case by simp
next
  case (Cons g xs)
  from lane_start_counts [OF Cons.prems, of r g] Cons.IH [of "lane_start r g s"]
  show ?case
    by simp
qed

lemma nonempty_enumerate:
  "length (filter (\<lambda>g. snd g \<noteq> []) (List.enumerate n gs)) = length (filter (\<lambda>g. g \<noteq> []) gs)"
  by (induction gs arbitrary: n) simp_all

lemma finish_run_fields:
  "procs (finish_run r s) = procs s" "lanes (finish_run r s) = lanes s"
  "running (finish_run r s) = running s" "loops (finish_run r s) = loops s"
  "retryTimers (finish_run r s) = retryTimers s" "taskGroups (finish_run r s) = taskGroups s"
  by (simp_all add: finish_run_def running_def)

lemma start_counts:
  assumes "\<not> isProcessing s" and "taskGroups s \<noteq> []" and "procs s = []" and "lanes s = []"
  shows "length (lanes (step Start s)) = length (taskGroups s)"
    and "running (step Start s) = length (filter (\<lambda>g. g \<noteq> []) (taskGroups s))"
    and "length (procs (step Start s)) = length (filter (\<lambda>g. g \<noteq> []) (taskGroups s))"
proof -
  let ?u = "(emit [AfterStart]
      ((emit [BeforeStart (tasks s)] s)
         \<lparr>isProcessing := True, isPaused := False,
          threads := replicate (totalThreads s) Null\<rparr>))\<lparr>runs := runs s + 1\<rparr>"
  have e: "step Start s = finish_run (runs s) (fold (lane_start (runs s))
      (List.enumerate 0 (taskGroups s)) ?u)"
    using assms(1,2) by (simp add: start_def Let_def runGroups_def)
  have "isProcessing ?u"
    by simp
  from fold_lane_start_counts [OF this, of "runs s" "List.enumerate 0 (taskGroups s)"] assms(3,4)
  show "length (lanes (step Start s)) = length (taskGroups s)"
    and "running (step Start s) = length (filter (\<lambda>g. g \<noteq> []) (taskGroups s))"
    and "length (procs (step Start s)) = length (filter (\<lambda>g. g \<noteq> []) (taskGroups s))"
    unfolding e by (simp_all add: finish_run_fields nonempty_enumerate running_def)
qed

fun is_all_done :: "effect \<Rightarrow> bool" where
  "is_all_done (OnAllTasksDone n) = True"
| "is_all_done e = False"

text \<open>The callbacks of the event loop: everything but the calls of the public methods.\<close>

fun notifies :: "event \<Rightarrow> bool" where
  "notifies Tick = True"
| "notifies RetryTimer = True"
| "notifies (TimerFire pid) = True"
| "notifies (Stdout pid d) = True"
| "notifies (Stderr pid d) = True"
| "notifies (Close pid code sig) = True"
| "notifies e = False"

definition all_resolved :: "manager \<Rightarrow> bool" where
  "all_resolved s = list_all l_done (lanes s)"

text \<open>Inside the one call \<open>r\<close> of \<^verbatim>\<open>runGroups\<close>, before its last two lines: the manager
  is processing and the completion hook has been called only as listed in \<open>tr\<close>.\<close>

definition underway :: "task list list \<Rightarrow> nat \<Rightarrow> effect list \<Rightarrow> manager \<Rightarrow> bool" where
  "underway gs r tr s \<longleftrightarrow>
     loops s = 0 \<and> retryTimers s = 0 \<and> taskGroups s = gs
     \<and> list_all (\<lambda>ln. l_run ln = r) (lanes s) \<and> isProcessing s
     \<and> filter is_all_done (trace s) = tr"

text \<open>Between two callbacks: the manager is processing exactly as long as a lane is
  unresolved, and the completion hook has been called once more, with the number of
  groups, exactly if all lanes are resolved.\<close>

definition settled :: "task list list \<Rightarrow> nat \<Rightarrow> effect list \<Rightarrow> manager \<Rightarrow> bool" where
  "settled gs r tr s \<longleftrightarrow>
     loops s = 0 \<and> retryTimers s = 0 \<and> taskGroups s = gs
     \<and> list_all (\<lambda>ln. l_run ln = r) (lanes s)
     \<and> (isProcessing s \<longleftrightarrow> \<not> all_resolved s)
     \<and> filter is_all_done (trace s) =
         tr @ (if all_resolved s then [OnAllTasksDone (length gs)] else [])"

lemma underway_frame [simp]:
  "underway gs r tr (s\<lparr>totalThreads := xtotalThreads\<rparr>) = underway gs r tr s"
  "underway gs r tr (s\<lparr>sleep := xsleep\<rparr>) = underway gs r tr s"
  "underway gs r tr (s\<lparr>tasks := xtasks\<rparr>) = underway gs r tr s"
  "underway gs r tr (s\<lparr>threads := xthreads\<rparr>) = underway gs r tr s"
  "underway gs r tr (s\<lparr>processing := xprocessing\<rparr>) = underway gs r tr s"
  "underway gs r tr (s\<lparr>processed := xprocessed\<rparr>) = underway gs r tr s"
  "underway gs r tr (s\<lparr>isPaused := xisPaused\<rparr>) = underway gs r tr s"
  "underway gs r tr (s\<lparr>children := xchildren\<rparr>) = underway gs r tr s"
  "underway gs r tr (s\<lparr>retryCount := xretryCount\<rparr>) = underway gs r tr s"
  "underway gs r tr (s\<lparr>timeouts := xtimeouts\<rparr>) = underway gs r tr s"
  "underway gs r tr (s\<lparr>maxRetry := xmaxRetry\<rparr>) = underway gs r tr s"
  "underway gs r tr (s\<lparr>defaultTimeout := xdefaultTimeout\<rparr>) = underway gs r tr s"
  "underway gs r tr (s\<lparr>retryDelay := xretryDelay\<rparr>) = underway gs r tr s"
  "underway gs r tr (s\<lparr>globalRetryLimit := xglobalRetryLimit\<rparr>) = underway gs r tr s"
  "underway gs r tr (s\<lparr>globalRetryCount := xglobalRetryCount\<rparr>) = underway gs r tr s"
  "underway gs r tr (s\<lparr>taskStatus := xtaskStatus\<rparr>) = underway gs r tr s"
  "underway gs r tr (s\<lparr>logLevel := xlogLevel\<rparr>) = underway gs r tr s"
  "underway gs r tr (s\<lparr>killSignal := xkillSignal\<rparr>) = underway gs r tr s"
  "underway gs r tr (s\<lparr>procs := xprocs\<rparr>) = underway gs r tr s"
  "underway gs r tr (s\<lparr>runs := xruns\<rparr>) = underway gs r tr s"
  by (simp_all add: underway_def)

lemma settled_frame [simp]:
  "settled gs r tr (s\<lparr>totalThreads := xtotalThreads\<rparr>) = settled gs r tr s"
  "settled gs r tr (s\<lparr>sleep := xsleep\<rparr>) = settled gs r tr s"
  "settled gs r tr (s\<lparr>tasks := xtasks\<rparr>) = settled gs r tr s"
  "settled gs r tr (s\<lparr>threads := xthreads\<rparr>) = settled gs r tr s"
  "settled gs r tr (s\<lparr>processing := xprocessing\<rparr>) = settled gs r tr s"
  "settled gs r tr (s\<lparr>processed := xprocessed\<rparr>) = settled gs r tr s"
  "settled gs r tr (s\<lparr>isPaused := xisPaused\<rparr>) = settled gs r tr s"
  "settled gs r tr (s\<lparr>children := xchildren\<rparr>) = settled gs r tr s"
  "settled gs r tr (s\<lparr>retryCount := xretryCount\<rparr>) = settled gs r tr s"
  "settled gs r tr (s\<lparr>timeouts := xtimeouts\<rparr>) = settled gs r tr s"
  "settled gs r tr (s\<lparr>maxRetry := xmaxRetry\<rparr>) = settled gs r tr s"
  "settled gs r tr (s\<lparr>defaultTimeout := xdefaultTimeout\<rparr>) = settled gs r tr s"
  "settled gs r tr (s\<lparr>retryDelay := xretryDelay\<rparr>) = settled gs r tr s"
  "settled gs r tr (s\<lparr>globalRetryLimit := xglobalRetryLimit\<rparr>) = settled gs r tr s"
  "settled gs r tr (s\<lparr>globalRetryCount := xglobalRetryCount\<rparr>) = settled gs r tr s"
  "settled gs r tr (s\<lparr>taskStatus := xtaskStatus\<rparr>) = settled gs r tr s"
  "settled gs r tr (s\<lparr>logLevel := xlogLevel\<rparr>) = settled gs r tr s"
  "settled gs r tr (s\<lparr>killSignal := xkillSignal\<rparr>) = settled gs r tr s"
  "settled gs r tr (s\<lparr>procs := xprocs\<rparr>) = settled gs r tr s"
  "settled gs r tr (s\<lparr>runs := xruns\<rparr>) = settled gs r tr s"
  by (simp_all add: settled_def all_resolved_def)

lemma underway_runSingleTask:
  "underway gs r tr s \<Longrightarrow> underway gs r tr (runSingleTask l g k tsk s)"
  by (simp add: underway_def runSingleTask_def Let_def)

lemma underway_lane_continue: "underway gs r tr s \<Longrightarrow> underway gs r tr (lane_continue l s)"
proof -
  assume a: "underway gs r tr s"
  have "underway gs r tr
      (emit [OnGroupDone g x] (s\<lparr>lanes := (lanes s)[l := (lanes s ! l)\<lparr>l_done := True\<rparr>]\<rparr>))"
    for g x
  proof (cases "l < length (lanes s)")
    case True
    with a have "l_run (lanes s ! l) = r"
      by (simp add: underway_def list_all_length)
    with a True show ?thesis
      by (auto simp: underway_def list_all_length nth_list_update)
  next
    case False
    with a show ?thesis
      by (simp add: underway_def list_update_beyond)
  qed
  with a show ?thesis
    by (simp add: lane_continue_def Let_def underway_runSingleTask)
qed

lemma underway_lane_start: "underway gs r tr s \<Longrightarrow> underway gs r tr (lane_start r g s)"
proof -
  assume "underway gs r tr s"
  then have "underway gs r tr (s\<lparr>lanes := lanes s @
      [\<lparr> l_run = r, l_gidx = fst g, l_group = snd g, l_pos = 0, l_done = False \<rparr>]\<rparr>)"
    by (simp add: underway_def)
  then show ?thesis
    unfolding lane_start_def by (rule underway_lane_continue)
qed

lemma resolved_run:
  "list_all (\<lambda>ln. l_run ln = r) (lanes s) \<Longrightarrow> run_resolved r s = all_resolved s"
  by (auto simp: run_resolved_def all_resolved_def list_all_iff)

lemma underway_finish_run: "underway gs r tr s \<Longrightarrow> settled gs r tr (finish_run r s)"
  by (auto simp: underway_def settled_def finish_run_def resolved_run all_resolved_def)

lemma underway_settled: "underway gs r tr s \<Longrightarrow> \<not> all_resolved s \<Longrightarrow> settled gs r tr s"
  by (simp add: underway_def settled_def)

lemma settled_underway: "settled gs r tr s \<Longrightarrow> \<not> all_resolved s \<Longrightarrow> underway gs r tr s"
  by (simp add: underway_def settled_def)

lemma underway_fields:
  "loops w = 0 \<Longrightarrow> retryTimers w = 0 \<Longrightarrow> taskGroups w = gs \<Longrightarrow>
   list_all (\<lambda>ln. l_run ln = r) (lanes w) \<Longrightarrow> isProcessing w \<Longrightarrow>
   filter is_all_done (trace w) = tr \<Longrightarrow> underway gs r tr w"
  by (simp add: underway_def)

text \<open>The close listener of a lane child, seen from the state \<open>w\<close> in which the lane is
  resumed.\<close>

lemma close_group_cases:
  assumes "\<And>w. lanes w = (lanes s)[l := (lanes s ! l)\<lparr>l_pos := Suc (l_pos (lanes s ! l))\<rparr>] \<Longrightarrow>
      loops w = loops s \<Longrightarrow> retryTimers w = retryTimers s \<Longrightarrow> taskGroups w = taskGroups s \<Longrightarrow>
      isProcessing w = isProcessing s \<Longrightarrow>
      filter is_all_done (trace w) = filter is_all_done (trace s) \<Longrightarrow>
      l_done (lanes (lane_continue l w) ! l) \<Longrightarrow>
      P (finish_run (l_run (lanes s ! l)) (lane_continue l w))"
    and "\<And>w. lanes w = (lanes s)[l := (lanes s ! l)\<lparr>l_pos := Suc (l_pos (lanes s ! l))\<rparr>] \<Longrightarrow>
      loops w = loops s \<Longrightarrow> retryTimers w = retryTimers s \<Longrightarrow> taskGroups w = taskGroups s \<Longrightarrow>
      isProcessing w = isProcessing s \<Longrightarrow>
      filter is_all_done (trace w) = filter is_all_done (trace s) \<Longrightarrow>
      \<not> l_done (lanes (lane_continue l w) ! l) \<Longrightarrow>
      P (lane_continue l w)"
  shows "P (close_group l pid code sig s)"
  unfolding close_group_def Let_def
  by (cases "code = Some 0"; simp del: fun_upd_apply; intro conjI impI;
      (rule assms(1) | rule assms(2)); simp)

lemma length_lanes_continue [simp]: "length (lanes (lane_continue l s)) = length (lanes s)"
  by (simp add: lane_continue_def Let_def runSingleTask_fields)

lemma settled_close_group:
  assumes "settled gs r tr s" and "l < length (lanes s)" and "\<not> l_done (lanes s ! l)"
  shows "settled gs r tr (close_group l pid code sig s)"
proof (rule close_group_cases)
  from assms(2,3) have n: "\<not> all_resolved s"
    by (auto simp: all_resolved_def list_all_length)
  with assms(1) have u: "underway gs r tr s"
    by (rule settled_underway)
  then have r: "l_run (lanes s ! l) = r"
    using assms(2) by (simp add: underway_def list_all_length)
  fix w :: manager
  assume w: "lanes w = (lanes s)[l := (lanes s ! l)\<lparr>l_pos := Suc (l_pos (lanes s ! l))\<rparr>]"
    "loops w = loops s" "retryTimers w = retryTimers s" "taskGroups w = taskGroups s"
    "isProcessing w = isProcessing s"
    "filter is_all_done (trace w) = filter is_all_done (trace s)"
  from u r assms(2) have "underway gs r tr w"
    by (intro underway_fields) (auto simp: w underway_def list_all_length nth_list_update)
  then have c: "underway gs r tr (lane_continue l w)"
    by (rule underway_lane_continue)
  {
    assume "l_done (lanes (lane_continue l w) ! l)"
    from c show "settled gs r tr (finish_run (l_run (lanes s ! l)) (lane_continue l w))"
      unfolding r by (rule underway_finish_run)
  }
  {
    assume "\<not> l_done (lanes (lane_continue l w) ! l)"
    with assms(2) have "\<not> all_resolved (lane_continue l w)"
      by (auto simp: all_resolved_def list_all_length w)
    with c show "settled gs r tr (lane_continue l w)"
      by (rule underway_settled)
  }
qed

lemma settled_emit:
  "filter is_all_done es = [] \<Longrightarrow> settled gs r tr (emit es s) = settled gs r tr s"
  by (simp add: emit_def settled_def all_resolved_def)

lemma settled_step:
  assumes "grouped gs g0 s" and "settled gs r tr s" and "notifies e"
  shows "settled gs r tr (step e s)"
proof (cases e)
  case Tick
  with assms(2) show ?thesis
    by (simp add: settled_def)
next
  case RetryTimer
  with assms(2) show ?thesis
    by (simp add: settled_def)
next
  case (TimerFire pid)
  with assms(2) grouped_lane [OF assms(1), of pid] show ?thesis
    by auto
next
  case (Stdout pid d)
  with assms(2) show ?thesis
    by (simp add: on_stdout_def Let_def settled_emit)
next
  case (Stderr pid d)
  with assms(2) show ?thesis
    by (simp add: on_stderr_def Let_def settled_emit)
next
  case (Close pid code sig)
  show ?thesis
  proof (cases "live s pid")
    case True
    then have p: "pid < length (procs s)" and c: "\<not> p_closed (procs s ! pid)"
      by (simp_all add: live_def)
    from assms(1) p have "lane_child (lanes s) (procs s ! pid)"
      by (simp add: grouped_def)
    with c obtain l where l: "p_lane (procs s ! pid) = Some l" "l < length (lanes s)"
      "\<not> l_done (lanes s ! l)"
      by (auto simp: lane_child_def)
    from settled_close_group [OF assms(2) l(2,3)] True l(1) Close show ?thesis
      by (simp add: on_close_def)
  next
    case False
    with Close assms(2) show ?thesis
      by simp
  qed
qed (use assms(3) in simp_all)

lemma settled_exec:
  "grouped gs g0 s \<Longrightarrow> settled gs r tr s \<Longrightarrow> \<forall>e \<in> set evs. notifies e \<Longrightarrow>
   settled gs r tr (exec evs s)"
  unfolding exec_def
  by (induction evs arbitrary: s) (simp_all add: settled_step grouped_step)

lemma start_settled:
  assumes "\<not> isProcessing s" and "taskGroups s \<noteq> []" and "lanes s = []" and "loops s = 0"
    and "retryTimers s = 0"
  shows "settled (taskGroups s) (runs s) (filter is_all_done (trace s)) (step Start s)"
proof -
  let ?u = "(emit [AfterStart]
      ((emit [BeforeStart (tasks s)] s)
         \<lparr>isProcessing := True, isPaused := False,
          threads := replicate (totalThreads s) Null\<rparr>))\<lparr>runs := runs s + 1\<rparr>"
  have e: "step Start s = finish_run (runs s) (fold (lane_start (runs s))
      (List.enumerate 0 (taskGroups s)) ?u)"
    using assms(1,2) by (simp add: start_def Let_def runGroups_def)
  have "underway (taskGroups s) (runs s) (filter is_all_done (trace s)) ?u"
    using assms(3-5) by (simp add: underway_def)
  then have "underway (taskGroups s) (runs s) (filter is_all_done (trace s))
      (fold (lane_start (runs s)) (List.enumerate 0 (taskGroups s)) ?u)"
    by (intro fold_inv [where P = "underway (taskGroups s) (runs s) (filter is_all_done (trace s))"]
        underway_lane_start)
  then show ?thesis
    unfolding e by (rule underway_finish_run)
qed

text \<open>
  A grouped run on a manager on which nothing is pending. Groups \<open>gs\<close> (at least one)
  are installed on a manager that has no children and no lanes, no suspended poll loop and
  no retry timer, and is not processing, and the manager is started. Then:

  \<^item> \<^verbatim>\<open>start\<close> opens one lane per group and at once spawns the first task of every
    group that has one, whatever the number of worker slots;
  \<^item> whatever the caller and the event loop do afterwards, the per-task retry counters
    stay empty, the global retry counter keeps its value and no deadline timer exists;
    every child runs the task of its group at its position; and of two children of one
    lane at consecutive positions the first has closed and was spawned first, at most
    one child of a lane has not closed, and no position of a lane is spawned twice;
  \<^item> as long as only callbacks of the event loop follow, the manager is processing
    exactly while some lane is unresolved, and the completion hook has been called
    exactly if all lanes are resolved, once, with the number of groups.
\<close>

theorem grouped_lanes:
  assumes "procs m = []" and "lanes m = []" and "loops m = 0" and "retryTimers m = 0"
    and "\<not> isProcessing m" and "gs \<noteq> []" and "s0 = setGroupedTasks gs m"
  shows "length (lanes (exec [Start] s0)) = length gs
       \<and> running (exec [Start] s0) = length (filter (\<lambda>g. g \<noteq> []) gs)
       \<and> (\<forall>evs.
             retryCount (exec (Start # evs) s0) = Map.empty
           \<and> globalRetryCount (exec (Start # evs) s0) = globalRetryCount m
           \<and> timeouts (exec (Start # evs) s0) = []
           \<and> (\<forall>pid < length (procs (exec (Start # evs) s0)).
                 p_timer (procs (exec (Start # evs) s0) ! pid) = None
               \<and> p_thread (procs (exec (Start # evs) s0) ! pid) < length gs
               \<and> p_index (procs (exec (Start # evs) s0) ! pid)
                   < length (gs ! p_thread (procs (exec (Start # evs) s0) ! pid))
               \<and> p_task (procs (exec (Start # evs) s0) ! pid)
                   = gs ! p_thread (procs (exec (Start # evs) s0) ! pid)
                        ! p_index (procs (exec (Start # evs) s0) ! pid)
               \<and> (\<forall>pid' < length (procs (exec (Start # evs) s0)).
                     p_lane (procs (exec (Start # evs) s0) ! pid')
                       = p_lane (procs (exec (Start # evs) s0) ! pid) \<longrightarrow>
                       (p_index (procs (exec (Start # evs) s0) ! pid')
                          = Suc (p_index (procs (exec (Start # evs) s0) ! pid)) \<longrightarrow>
                        p_closed (procs (exec (Start # evs) s0) ! pid) \<and> pid < pid')
                     \<and> (\<not> p_closed (procs (exec (Start # evs) s0) ! pid)
                          \<and> \<not> p_closed (procs (exec (Start # evs) s0) ! pid') \<longrightarrow> pid' = pid)
                     \<and> (p_index (procs (exec (Start # evs) s0) ! pid')
                          = p_index (procs (exec (Start # evs) s0) ! pid) \<longrightarrow> pid' = pid))))
       \<and> (\<forall>evs. (\<forall>e \<in> set evs. notifies e) \<longrightarrow>
             (isProcessing (exec (Start # evs) s0) \<longleftrightarrow> \<not> all_resolved (exec (Start # evs) s0))
           \<and> filter is_all_done (trace (exec (Start # evs) s0)) =
               filter is_all_done (trace m)
               @ (if all_resolved (exec (Start # evs) s0) then [OnAllTasksDone (length gs)]
                  else []))"
proof -
  have i: "\<not> isProcessing s0" "taskGroups s0 = gs" "procs s0 = []" "lanes s0 = []"
    "loops s0 = 0" "retryTimers s0 = 0" "trace s0 = trace m"
    using assms(1-5) by (simp_all add: assms(7) setGroupedTasks_def resetState_def)
  from i(2) assms(6) have ne: "taskGroups s0 \<noteq> []"
    by simp
  have x: "exec (Start # evs) s0 = exec evs (step Start s0)" for evs
    by (simp add: exec_def)
  have a: "length (lanes (exec [Start] s0)) = length gs"
    and b: "running (exec [Start] s0) = length (filter (\<lambda>g. g \<noteq> []) gs)"
    using start_counts(1,2) [OF i(1) ne i(3,4)] by (simp_all add: exec_def i(2))
  have "grouped gs (globalRetryCount m) s0"
    unfolding assms(7) by (rule grouped_install [OF assms(1,2)])
  then have g1: "grouped gs (globalRetryCount m) (step Start s0)"
    by (rule grouped_step)
  then have g: "grouped gs (globalRetryCount m) (exec (Start # evs) s0)" for evs
    unfolding x by (rule grouped_exec)
  have c: "retryCount (exec (Start # evs) s0) = Map.empty"
    "globalRetryCount (exec (Start # evs) s0) = globalRetryCount m"
    "timeouts (exec (Start # evs) s0) = []" for evs
    using g [of evs] by (simp_all add: grouped_def)
  have s1: "settled gs (runs s0) (filter is_all_done (trace m)) (step Start s0)"
    using start_settled [OF i(1) ne i(4,5,6)] by (simp add: i(2,7))
  have d: "(isProcessing (exec (Start # evs) s0) \<longleftrightarrow> \<not> all_resolved (exec (Start # evs) s0))
      \<and> filter is_all_done (trace (exec (Start # evs) s0)) =
          filter is_all_done (trace m)
          @ (if all_resolved (exec (Start # evs) s0) then [OnAllTasksDone (length gs)] else [])"
    if "\<forall>e \<in> set evs. notifies e" for evs
    using settled_exec [OF g1 s1 that] unfolding x by (simp add: settled_def)
  have f: "p_timer (procs (exec (Start # evs) s0) ! pid) = None
      \<and> p_thread (procs (exec (Start # evs) s0) ! pid) < length gs
      \<and> p_index (procs (exec (Start # evs) s0) ! pid)
          < length (gs ! p_thread (procs (exec (Start # evs) s0) ! pid))
      \<and> p_task (procs (exec (Start # evs) s0) ! pid)
          = gs ! p_thread (procs (exec (Start # evs) s0) ! pid)
               ! p_index (procs (exec (Start # evs) s0) ! pid)
      \<and> (\<forall>pid' < length (procs (exec (Start # evs) s0)).
            p_lane (procs (exec (Start # evs) s0) ! pid')
              = p_lane (procs (exec (Start # evs) s0) ! pid) \<longrightarrow>
              (p_index (procs (exec (Start # evs) s0) ! pid')
                 = Suc (p_index (procs (exec (Start # evs) s0) ! pid)) \<longrightarrow>
               p_closed (procs (exec (Start # evs) s0) ! pid) \<and> pid < pid')
            \<and> (\<not> p_closed (procs (exec (Start # evs) s0) ! pid)
                 \<and> \<not> p_closed (procs (exec (Start # evs) s0) ! pid') \<longrightarrow> pid' = pid)
            \<and> (p_index (procs (exec (Start # evs) s0) ! pid')
                 = p_index (procs (exec (Start # evs) s0) ! pid) \<longrightarrow> pid' = pid))"
    if p: "pid < length (procs (exec (Start # evs) s0))" for evs pid
  proof (intro conjI allI impI)
    note k = grouped_facts [OF g p]
    show "p_timer (procs (exec (Start # evs) s0) ! pid) = None"
      by (rule k(4))
    show "p_thread (procs (exec (Start # evs) s0) ! pid) < length gs"
      by (rule k(1))
    show "p_index (procs (exec (Start # evs) s0) ! pid)
        < length (gs ! p_thread (procs (exec (Start # evs) s0) ! pid))"
      by (rule k(2))
    show "p_task (procs (exec (Start # evs) s0) ! pid)
        = gs ! p_thread (procs (exec (Start # evs) s0) ! pid)
             ! p_index (procs (exec (Start # evs) s0) ! pid)"
      by (rule k(3))
    fix pid'
    assume q: "pid' < length (procs (exec (Start # evs) s0))"
      and l: "p_lane (procs (exec (Start # evs) s0) ! pid')
              = p_lane (procs (exec (Start # evs) s0) ! pid)"
    {
      assume "p_index (procs (exec (Start # evs) s0) ! pid')
                 = Suc (p_index (procs (exec (Start # evs) s0) ! pid))"
      from k(5) [OF q l this]
      show "p_closed (procs (exec (Start # evs) s0) ! pid)" and "pid < pid'"
        by simp_all
    }
    {
      assume "\<not> p_closed (procs (exec (Start # evs) s0) ! pid)
                 \<and> \<not> p_closed (procs (exec (Start # evs) s0) ! pid')"
      then show "pid' = pid"
        using k(6) [OF q l] by simp
    }
    {
      assume "p_index (procs (exec (Start # evs) s0) ! pid')
                 = p_index (procs (exec (Start # evs) s0) ! pid)"
      then show "pid' = pid"
        by (rule k(7) [OF q l])
    }
  qed
  show ?thesis
  proof (intro conjI)
    show "length (lanes (exec [Start] s0)) = length gs"
      by (rule a)
    show "running (exec [Start] s0) = length (filter (\<lambda>g. g \<noteq> []) gs)"
      by (rule b)
  next
    show "\<forall>evs. (\<forall>e \<in> set evs. notifies e) \<longrightarrow>
        (isProcessing (exec (Start # evs) s0) \<longleftrightarrow> \<not> all_resolved (exec (Start # evs) s0))
      \<and> filter is_all_done (trace (exec (Start # evs) s0)) = filter is_all_done (trace m)
          @ (if all_resolved (exec (Start # evs) s0) then [OnAllTasksDone (length gs)] else [])"
      by (intro allI impI) (rule d)
  next
    show "\<forall>evs. retryCount (exec (Start # evs) s0) = Map.empty
      \<and> globalRetryCount (exec (Start # evs) s0) = globalRetryCount m
      \<and> timeouts (exec (Start # evs) s0) = []
      \<and> (\<forall>pid < length (procs (exec (Start # evs) s0)).
           p_timer (procs (exec (Start # evs) s0) ! pid) = None
         \<and> p_thread (procs (exec (Start # evs) s0) ! pid) < length gs
         \<and> p_index (procs (exec (Start # evs) s0) ! pid)
             < length (gs ! p_thread (procs (exec (Start # evs) s0) ! pid))
         \<and> p_task (procs (exec (Start # evs) s0) ! pid)
             = gs ! p_thread (procs (exec (Start # evs) s0) ! pid)
                  ! p_index (procs (exec (Start # evs) s0) ! pid)
         \<and> (\<forall>pid' < length (procs (exec (Start # evs) s0)).
               p_lane (procs (exec (Start # evs) s0) ! pid')
                 = p_lane (procs (exec (Start # evs) s0) ! pid) \<longrightarrow>
                 (p_index (procs (exec (Start # evs) s0) ! pid')
                    = Suc (p_index (procs (exec (Start # evs) s0) ! pid)) \<longrightarrow>
                  p_closed (procs (exec (Start # evs) s0) ! pid) \<and> pid < pid')
               \<and> (\<not> p_closed (procs (exec (Start # evs) s0) ! pid)
                    \<and> \<not> p_closed (procs (exec (Start # evs) s0) ! pid') \<longrightarrow> pid' = pid)
               \<and> (p_index (procs (exec (Start # evs) s0) ! pid')
                    = p_index (procs (exec (Start # evs) s0) ! pid) \<longrightarrow> pid' = pid)))"
    proof (intro allI conjI)
      fix evs
      show "retryCount (exec (Start # evs) s0) = Map.empty"
        by (rule c(1))
      show "globalRetryCount (exec (Start # evs) s0) = globalRetryCount m"
        by (rule c(2))
      show "timeouts (exec (Start # evs) s0) = []"
        by (rule c(3))
    next
      fix evs pid
      show "pid < length (procs (exec (Start # evs) s0)) \<longrightarrow>
           p_timer (procs (exec (Start # evs) s0) ! pid) = None
         \<and> p_thread (procs (exec (Start # evs) s0) ! pid) < length gs
         \<and> p_index (procs (exec (Start # evs) s0) ! pid)
             < length (gs ! p_thread (procs (exec (Start # evs) s0) ! pid))
         \<and> p_task (procs (exec (Start # evs) s0) ! pid)
             = gs ! p_thread (procs (exec (Start # evs) s0) ! pid)
                  ! p_index (procs (exec (Start # evs) s0) ! pid)
         \<and> (\<forall>pid' < length (procs (exec (Start # evs) s0)).
               p_lane (procs (exec (Start # evs) s0) ! pid')
                 = p_lane (procs (exec (Start # evs) s0) ! pid) \<longrightarrow>
                 (p_index (procs (exec (Start # evs) s0) ! pid')
                    = Suc (p_index (procs (exec (Start # evs) s0) ! pid)) \<longrightarrow>
                  p_closed (procs (exec (Start # evs) s0) ! pid) \<and> pid < pid')
               \<and> (\<not> p_closed (procs (exec (Start # evs) s0) ! pid)
                    \<and> \<not> p_closed (procs (exec (Start # evs) s0) ! pid') \<longrightarrow> pid' = pid)
               \<and> (p_index (procs (exec (Start # evs) s0) ! pid')
                    = p_index (procs (exec (Start # evs) s0) ! pid) \<longrightarrow> pid' = pid))"
        by (rule impI) (rule f)
    qed
  qed
qed

text \<open>The theorem at \<^verbatim>\<open>new TaskProcessManagerMax(1, 100, 0)\<close>, one worker slot, with the
  groups \<^verbatim>\<open>[[a, b], [c]]\<close>: both lanes start at once; \<^verbatim>\<open>a\<close> exits with code 0 and
  \<^verbatim>\<open>b\<close> follows it in the lane, \<^verbatim>\<open>c\<close> exits with code 1, \<^verbatim>\<open>b\<close> exits with code 0.\<close>

theorem grouped_lanes_witness:
  "procs (fresh1 0) = [] \<and> lanes (fresh1 0) = [] \<and> loops (fresh1 0) = 0
   \<and> retryTimers (fresh1 0) = 0 \<and> \<not> isProcessing (fresh1 0)
   \<and> totalThreads (fresh1 0) = 1
   \<and> running (exec [Start] (setGroupedTasks [[sh ''a'', sh ''b''], [sh ''c'']] (fresh1 0))) = 2
   \<and> all_resolved
        (exec [Start, Close 0 (Some 0) None, Close 1 (Some 1) None, Close 2 (Some 0) None]
           (setGroupedTasks [[sh ''a'', sh ''b''], [sh ''c'']] (fresh1 0)))
   \<and> \<not> isProcessing
        (exec [Start, Close 0 (Some 0) None, Close 1 (Some 1) None, Close 2 (Some 0) None]
           (setGroupedTasks [[sh ''a'', sh ''b''], [sh ''c'']] (fresh1 0)))
   \<and> filter is_all_done (trace
        (exec [Start, Close 0 (Some 0) None, Close 1 (Some 1) None, Close 2 (Some 0) None]
           (setGroupedTasks [[sh ''a'', sh ''b''], [sh ''c'']] (fresh1 0))))
       = [OnAllTasksDone 2]
   \<and> retryCount
        (exec [Start, Close 0 (Some 0) None, Close 1 (Some 1) None, Close 2 (Some 0) None]
           (setGroupedTasks [[sh ''a'', sh ''b''], [sh ''c'']] (fresh1 0))) = Map.empty
   \<and> p_task (procs
        (exec [Start, Close 0 (Some 0) None, Close 1 (Some 1) None, Close 2 (Some 0) None]
           (setGroupedTasks [[sh ''a'', sh ''b''], [sh ''c'']] (fresh1 0))) ! 2) = sh ''b''"
proof -
  let ?gs = "[[sh ''a'', sh ''b''], [sh ''c'']]"
  let ?evs = "[Close 0 (Some 0) None, Close 1 (Some 1) None, Close 2 (Some 0) None]"
  let ?s = "exec (Start # ?evs) (setGroupedTasks ?gs (fresh1 0))"
  have h: "procs (fresh1 0) = []" "lanes (fresh1 0) = []" "loops (fresh1 0) = 0"
    "retryTimers (fresh1 0) = 0" "\<not> isProcessing (fresh1 0)"
    by (simp_all add: fresh1_def constructor_def)
  have n: "?gs \<noteq> []"
    by simp
  have t: "totalThreads (fresh1 0) = 1"
    by (simp add: fresh1_def constructor_def)
  have e: "\<forall>e \<in> set ?evs. notifies e"
    by simp
  have r: "all_resolved ?s"
    by (simp add: run_defs all_resolved_def)
  have p: "2 < length (procs ?s)" "p_thread (procs ?s ! 2) = 0" "p_index (procs ?s ! 2) = 1"
    by (simp_all add: run_defs)
  have q: "filter is_all_done (trace (fresh1 0)) = []"
    by (simp add: fresh1_def constructor_def)
  note g = grouped_lanes [OF h n refl]
  from g have a: "running (exec [Start] (setGroupedTasks ?gs (fresh1 0))) = 2"
    by simp
  from g e have "(isProcessing ?s \<longleftrightarrow> \<not> all_resolved ?s)
      \<and> filter is_all_done (trace ?s) = filter is_all_done (trace (fresh1 0))
          @ (if all_resolved ?s then [OnAllTasksDone (length ?gs)] else [])"
    by blast
  with r q have b: "\<not> isProcessing ?s" "filter is_all_done (trace ?s) = [OnAllTasksDone 2]"
    by simp_all
  from g have c: "retryCount ?s = Map.empty"
    by blast
  from g p(1) have "p_task (procs ?s ! 2) = ?gs ! p_thread (procs ?s ! 2) ! p_index (procs ?s ! 2)"
    by blast
  then have d: "p_task (procs ?s ! 2) = sh ''b''"
    unfolding p by simp
  from h t a r b c d show ?thesis
    by (intro conjI)
qed

text \<open>
  Claim C4 on a manager that is used again after \<^verbatim>\<open>stop()\<close>. A flat run of one task is
  started and stopped: \<^verbatim>\<open>stop\<close> clears the processing flag, and the activation of
  \<^verbatim>\<open>runSingle\<close> stays suspended in \<^verbatim>\<open>delay\<close>. The groups \<^verbatim>\<open>[[a, b], [c]]\<close> are
  installed and started: two lanes run \<^verbatim>\<open>a\<close> and \<^verbatim>\<open>c\<close>. The suspended activation
  wakes, finds the flag set again and the flat list empty, leaves its loop (line 170),
  clears the flag (line 248) and calls the completion hook with 0 (line 249) while both
  lanes are unresolved. When \<^verbatim>\<open>a\<close> exits with code 0 its lane finds the flag clear
  and breaks (line 287): \<^verbatim>\<open>b\<close> is never spawned, although nobody stopped the grouped
  run.
\<close>

theorem suspended_loop_ends_grouped_run:
  "loops (setGroupedTasks [[sh ''a'', sh ''b''], [sh ''c'']]
            (exec [Start, Stop None] (setTasks [sh ''x''] (fresh1 0)))) = 1
   \<and> \<not> isProcessing (setGroupedTasks [[sh ''a'', sh ''b''], [sh ''c'']]
            (exec [Start, Stop None] (setTasks [sh ''x''] (fresh1 0))))
   \<and> map p_task (procs (exec [Start]
        (setGroupedTasks [[sh ''a'', sh ''b''], [sh ''c'']]
           (exec [Start, Stop None] (setTasks [sh ''x''] (fresh1 0))))))
       = [sh ''x'', sh ''a'', sh ''c'']
   \<and> \<not> isProcessing (exec [Start, Tick]
        (setGroupedTasks [[sh ''a'', sh ''b''], [sh ''c'']]
           (exec [Start, Stop None] (setTasks [sh ''x''] (fresh1 0)))))
   \<and> map l_done (lanes (exec [Start, Tick]
        (setGroupedTasks [[sh ''a'', sh ''b''], [sh ''c'']]
           (exec [Start, Stop None] (setTasks [sh ''x''] (fresh1 0))))))
       = [False, False]
   \<and> filter is_all_done (trace (exec [Start, Tick]
        (setGroupedTasks [[sh ''a'', sh ''b''], [sh ''c'']]
           (exec [Start, Stop None] (setTasks [sh ''x''] (fresh1 0))))))
       = [OnAllTasksDone 0]
   \<and> map l_done (lanes (exec [Start, Tick, Close 1 (Some 0) None, Close 2 (Some 0) None]
        (setGroupedTasks [[sh ''a'', sh ''b''], [sh ''c'']]
           (exec [Start, Stop None] (setTasks [sh ''x''] (fresh1 0))))))
       = [True, True]
   \<and> map p_task (procs (exec [Start, Tick, Close 1 (Some 0) None, Close 2 (Some 0) None]
        (setGroupedTasks [[sh ''a'', sh ''b''], [sh ''c'']]
           (exec [Start, Stop None] (setTasks [sh ''x''] (fresh1 0))))))
       = [sh ''x'', sh ''a'', sh ''c'']
   \<and> filter is_all_done (trace (exec [Start, Tick, Close 1 (Some 0) None, Close 2 (Some 0) None]
        (setGroupedTasks [[sh ''a'', sh ''b''], [sh ''c'']]
           (exec [Start, Stop None] (setTasks [sh ''x''] (fresh1 0))))))
       = [OnAllTasksDone 0, OnAllTasksDone 2]"
  by (simp add: run_defs)

end
